theory Spec2Isabelle
  imports Main "HOL-Library.Sublist" "HOL-Library.Mapping" "HOL-Library.AList_Mapping"
begin

section \<open>Go strings\<close>

text \<open>
  A Go string is a sequence of bytes; \<open>len\<close> counts bytes and a slice expression
  \<open>s[i:j]\<close> cuts bytes. The model is \<open>string\<close>, a list of 8-bit characters.
\<close>

subsection \<open>strings.TrimSpace\<close>

text \<open>
  \<open>strings.TrimSpace\<close> removes leading and trailing white space as defined by Unicode.
  The white-space code points are U+0009 to U+000D, U+0020, U+0085, U+00A0, U+1680,
  U+2000 to U+200A, U+2028, U+2029, U+202F, U+205F and U+3000. The library decodes one
  rune at either end of the string and tests it; a rune is white space exactly when the
  bytes at that end are the UTF-8 encoding of one of these code points (a byte sequence
  that is no valid encoding decodes to U+FFFD, which is no white space). \<open>spaceRunes\<close>
  lists the encodings.
\<close>

definition asciiSpace :: "char list" where
  "asciiSpace = [CHR 0x09, CHR 0x0A, CHR 0x0B, CHR 0x0C, CHR 0x0D, CHR 0x20]"

definition spaceRunes :: "string list" where
  "spaceRunes = map (\<lambda>c. [c]) asciiSpace @
     [[CHR 0xC2, CHR 0x85], [CHR 0xC2, CHR 0xA0], [CHR 0xE1, CHR 0x9A, CHR 0x80]] @
     map (\<lambda>c. [CHR 0xE2, CHR 0x80, c])
       [CHR 0x80, CHR 0x81, CHR 0x82, CHR 0x83, CHR 0x84, CHR 0x85, CHR 0x86, CHR 0x87,
        CHR 0x88, CHR 0x89, CHR 0x8A, CHR 0xA8, CHR 0xA9, CHR 0xAF] @
     [[CHR 0xE2, CHR 0x81, CHR 0x9F], [CHR 0xE3, CHR 0x80, CHR 0x80]]"

text \<open>The number of bytes of the white-space rune at the head of a string, 0 if there is none.\<close>

definition spaceLen :: "string \<Rightarrow> nat" where
  "spaceLen s = (case filter (\<lambda>w. prefix w s) spaceRunes of [] \<Rightarrow> 0 | w # _ \<Rightarrow> length w)"

text \<open>The same at the end of a string.\<close>

definition spaceLenR :: "string \<Rightarrow> nat" where
  "spaceLenR s = (case filter (\<lambda>w. suffix w s) spaceRunes of [] \<Rightarrow> 0 | w # _ \<Rightarrow> length w)"

lemma spaceLen_le: "spaceLen s \<le> length s"
proof (cases "filter (\<lambda>w. prefix w s) spaceRunes")
  case Nil
  then show ?thesis by (simp add: spaceLen_def)
next
  case (Cons w ws)
  then have "w \<in> set (filter (\<lambda>w. prefix w s) spaceRunes)" by simp
  then have "prefix w s" by simp
  then have "length w \<le> length s" by (rule prefix_length_le)
  with Cons show ?thesis by (simp add: spaceLen_def)
qed

lemma spaceLenR_le: "spaceLenR s \<le> length s"
proof (cases "filter (\<lambda>w. suffix w s) spaceRunes")
  case Nil
  then show ?thesis by (simp add: spaceLenR_def)
next
  case (Cons w ws)
  then have "w \<in> set (filter (\<lambda>w. suffix w s) spaceRunes)" by simp
  then have "suffix w s" by simp
  then have "length w \<le> length s" by (rule suffix_length_le)
  with Cons show ?thesis by (simp add: spaceLenR_def)
qed

function trimLeft :: "string \<Rightarrow> string" where
  "trimLeft s = (if spaceLen s = 0 then s else trimLeft (drop (spaceLen s) s))"
  by pat_completeness auto
termination
proof (relation "measure length")
  show "wf (measure length)" by simp
next
  fix s :: string
  assume "spaceLen s \<noteq> 0"
  moreover have "spaceLen s \<le> length s" by (rule spaceLen_le)
  ultimately show "(drop (spaceLen s) s, s) \<in> measure length" by simp
qed

function trimRight :: "string \<Rightarrow> string" where
  "trimRight s = (if spaceLenR s = 0 then s else trimRight (take (length s - spaceLenR s) s))"
  by pat_completeness auto
termination
proof (relation "measure length")
  show "wf (measure length)" by simp
next
  fix s :: string
  assume "spaceLenR s \<noteq> 0"
  moreover have "spaceLenR s \<le> length s" by (rule spaceLenR_le)
  ultimately show "(take (length s - spaceLenR s) s, s) \<in> measure length" by simp
qed

declare trimLeft.simps [simp del] trimRight.simps [simp del]

definition TrimSpace :: "string \<Rightarrow> string" where
  "TrimSpace s = trimRight (trimLeft s)"

text \<open>
  A string is blank when it consists of white space only (the empty string included):
  it is a concatenation of encoded white-space runes.
\<close>

definition blank :: "string \<Rightarrow> bool" where
  "blank s = (\<exists>ws. set ws \<subseteq> set spaceRunes \<and> s = concat ws)"

subsection \<open>Other functions of package strings\<close>

definition HasPrefix :: "string \<Rightarrow> string \<Rightarrow> bool" where
  "HasPrefix s p = prefix p s"

fun Contains :: "string \<Rightarrow> string \<Rightarrow> bool" where
  "Contains [] sub = (sub = [])"
| "Contains (c # cs) sub = (prefix sub (c # cs) \<or> Contains cs sub)"

definition ContainsAny :: "string \<Rightarrow> string \<Rightarrow> bool" where
  "ContainsAny s chars = list_ex (\<lambda>c. c \<in> set chars) s"

text \<open>
  \<open>strings.ReplaceAll(s, ":", "_")\<close>: the pattern is a single byte, so every occurrence
  is replaced where it stands.
\<close>

definition ReplaceAll_colon :: "string \<Rightarrow> string" where
  "ReplaceAll_colon s = map (\<lambda>c. if c = CHR '':'' then CHR ''_'' else c) s"

text \<open>
  \<open>strings.ToLower\<close>: a string of ASCII bytes has its letters A-Z mapped to a-z. A string
  with a byte from 0x80 on is mapped rune by rune through the Unicode tables, which are
  not reproduced here: the result for such a string is the parameter \<open>U\<close>.
\<close>

definition lowerASCII :: "char \<Rightarrow> char" where
  "lowerASCII c =
     (if (65::nat) \<le> of_char c \<and> of_char c \<le> (90::nat) then char_of (of_char c + (32::nat)) else c)"

definition ToLower :: "(string \<Rightarrow> string) \<Rightarrow> string \<Rightarrow> string" where
  "ToLower U s = (if list_all (\<lambda>c. of_char c < (128::nat)) s then map lowerASCII s else U s)"

text \<open>The verb \<open>%d\<close> of \<open>fmt.Sprintf\<close> on an \<open>int\<close>: decimal digits, with a minus sign.\<close>

fun digits :: "nat \<Rightarrow> string" where
  "digits n = (if n < 10 then [char_of (48 + n)] else digits (n div 10) @ [char_of (48 + n mod 10)])"

declare digits.simps [simp del]

definition itoa :: "int \<Rightarrow> string" where
  "itoa i = (if i < 0 then CHR ''-'' # digits (nat (- i)) else digits (nat i))"

section \<open>Errors\<close>

datatype error =
    ErrInvalid                  \<comment> \<open>\<open>os.ErrInvalid\<close>\<close>
  | ErrorString string          \<comment> \<open>\<open>errors.New(text)\<close>, or an error a tool or the library reports\<close>
  | WrapError string error      \<comment> \<open>\<open>fmt.Errorf("prefix: %w", err)\<close>\<close>
  | IOError string              \<comment> \<open>a failed file operation (\<open>*os.PathError\<close>, \<open>*os.LinkError\<close>), with its name\<close>
  | Panic string                \<comment> \<open>a run-time panic\<close>

section \<open>The data model\<close>

subsection \<open>Messages (internal/core/message.go)\<close>

text \<open>
  \<open>time.Time\<close> is an instant; the model counts nanoseconds from the zero instant, so
  \<open>IsZero\<close> is the test against 0.
\<close>

type_synonym time = int

definition IsZero :: "time \<Rightarrow> bool" where
  "IsZero t = (t = 0)"

record Message =
  Channel :: string
  UserID :: string
  ChatID :: string
  Text :: string
  Timestamp :: time

subsection \<open>Sessions and the store (internal/core/session_store.go)\<close>

record Session =
  Key :: string
  Messages :: "Message list"
  Created :: time
  Updated :: time

text \<open>The store: the Go map from keys to sessions is a finite mapping.\<close>

record SessionStore =
  storage :: string
  sessions :: "(string, Session) mapping"

subsection \<open>The agent (internal/core/agent.go)\<close>

text \<open>
  The tools are interfaces; here a tool is the function from the address it is given to
  what it returns, and a nil interface is \<open>None\<close>. The store is a pointer that may be
  nil. \<open>maxMemory\<close> is an \<open>int\<close> that \<open>NewAgent\<close>, the only constructor, sets to 128; it
  is a natural number here.
\<close>

record AgentStats =
  InMemoryMessages :: nat
  StoredSessions :: nat
  StoredMessages :: nat

record Agent =
  systemPrompt :: string
  browser :: "(string \<Rightarrow> error + string) option"
  webFetch :: "(string \<Rightarrow> error + string) option"
  sessions :: "SessionStore option"
  memory :: "Message list"
  maxMemory :: nat

subsection \<open>The tools (internal/tools)\<close>

text \<open>
  \<open>url.URL\<close>, of package \<open>net/url\<close>: the code reads the fields \<open>Scheme\<close> and \<open>Host\<close>;
  the other fields are the extension of the record.
\<close>

record URL =
  Scheme :: string
  Host :: string

text \<open>
  The browser: a context that is not nil is \<open>Some\<close> of the identity of the running
  browser; a cancel function is modelled by whether it is set. The logger, the mutex and
  the channels of the watchdog are left out.
\<close>

record Browser =
  idleTimeout :: int
  allocCancel :: bool
  browserCancel :: bool
  browserCtx :: "nat option"
  lastUsed :: time

subsection \<open>The environment\<close>

text \<open>
  The files of the storage directory, by base name, with their contents. Every path the
  store opens is the storage root joined with a name that holds no path separator.
\<close>

type_synonym files = "string \<rightharpoonup> string"

text \<open>
  What the operating system does during one run of the file operations of \<open>Save\<close>: the
  random part of the name \<open>os.CreateTemp\<close> picks, the operation that fails (if any; a
  failing \<open>Write\<close> has written some bytes), and whether the \<open>os.Remove\<close> of the deferred
  cleanup fails.
\<close>

datatype fault =
  NoFault | FailCreateTemp | FailWrite nat | FailChmod | FailSync | FailClose | FailRename

record os_behaviour =
  tmp_rand :: string
  fault :: fault
  remove_fails :: bool

text \<open>
  Everything outside the repository's code: the clock (\<open>nows w i\<close> is what the i-th call
  of \<open>time.Now\<close> returns), the file system, the operating system's behaviour at the i-th
  \<open>Save\<close>, two library functions that are parameters (\<open>json.MarshalIndent\<close> on a
  session snapshot and the Unicode case mapping of \<open>strings.ToLower\<close>), and the browser
  processes: \<open>start_outcome w i\<close> is what the i-th start of a browser gives (an error, or
  the identity of the new browser), \<open>starts\<close> counts the starts and \<open>procs\<close> lists the
  browsers that run.
\<close>

record world =
  nows :: "nat \<Rightarrow> time"
  ticks :: nat
  files :: files
  os_plan :: "nat \<Rightarrow> os_behaviour"
  saves :: nat
  marshal :: "Session \<Rightarrow> error + string"
  unicodeLower :: "string \<Rightarrow> string"
  start_outcome :: "nat \<Rightarrow> error + nat"
  starts :: nat
  procs :: "nat list"

text \<open>A call of \<open>time.Now\<close> takes the next reading of the clock.\<close>

definition time_Now :: "world \<Rightarrow> time \<times> world" where
  "time_Now w = (nows w (ticks w), w\<lparr>ticks := Suc (ticks w)\<rparr>)"

section \<open>Session keys and truncation (internal/core/agent.go)\<close>

definition messageSessionKey :: "Message \<Rightarrow> string" where
  "messageSessionKey msg =
     (if TrimSpace (Channel msg) \<noteq> [] \<and> TrimSpace (ChatID msg) \<noteq> [] then
        Channel msg @ '':'' @ ChatID msg
      else if TrimSpace (UserID msg) \<noteq> [] then ''user:'' @ TrimSpace (UserID msg)
      else ''global'')"

text \<open>
  \<open>truncate(text, max)\<close>: the slice \<open>text[:max]\<close> is evaluated only when
  \<open>len(text) > max\<close>, and panics when \<open>max\<close> is negative. The parameter is \<open>mx\<close> here.
\<close>

definition truncate :: "string \<Rightarrow> int \<Rightarrow> error + string" where
  "truncate text mx =
     (if int (length text) \<le> mx then Inr text
      else if mx < 0 then Inl (Panic ''slice bounds out of range'')
      else Inr (take (nat mx) text @ ''...''))"

section \<open>The session store (internal/core/session_store.go)\<close>


definition sanitizeSessionFilename :: "string \<Rightarrow> string" where
  "sanitizeSessionFilename key = ReplaceAll_colon (TrimSpace key)"

subsection \<open>filepath.IsLocal on Unix\<close>

text \<open>
  \<open>filepath.IsLocal\<close> refuses the empty path and a rooted path. When an element of the
  path is \<open>.\<close> or \<open>..\<close> it cleans the path first (\<open>filepath.Clean\<close>, here on a path
  that is not rooted: empty elements and \<open>.\<close> are dropped, \<open>..\<close> removes the element
  before it, or stays when there is none). It refuses a path that is \<open>..\<close> or starts
  with \<open>../\<close>.
\<close>

fun splitSlash :: "string \<Rightarrow> string \<Rightarrow> string list" where
  "splitSlash acc [] = [rev acc]"
| "splitSlash acc (c # cs) =
     (if c = CHR ''/'' then rev acc # splitSlash [] cs else splitSlash (c # acc) cs)"

fun cleanParts :: "string list \<Rightarrow> string list \<Rightarrow> string list" where
  "cleanParts out [] = rev out"
| "cleanParts out (p # ps) =
     (if p = [] \<or> p = ''.'' then cleanParts out ps
      else if p = ''..'' then
        (case out of
           [] \<Rightarrow> cleanParts [''..''] ps
         | q # qs \<Rightarrow> if q = ''..'' then cleanParts (''..'' # out) ps else cleanParts qs ps)
      else cleanParts (p # out) ps)"

fun joinSlash :: "string list \<Rightarrow> string" where
  "joinSlash [] = []"
| "joinSlash [p] = p"
| "joinSlash (p # q # ps) = p @ ''/'' @ joinSlash (q # ps)"

definition Clean :: "string \<Rightarrow> string" where
  "Clean path = (let out = cleanParts [] (splitSlash [] path) in if out = [] then ''.'' else joinSlash out)"

definition IsLocal :: "string \<Rightarrow> bool" where
  "IsLocal path =
     (if HasPrefix path ''/'' \<or> path = [] then False
      else let hasDots = list_ex (\<lambda>part. part = ''.'' \<or> part = ''..'') (splitSlash [] path);
               path = (if hasDots then Clean path else path)
           in \<not> (path = ''..'' \<or> HasPrefix path ''../''))"

subsection \<open>Save\<close>

definition tmpName :: "string \<Rightarrow> string" where
  "tmpName r = ''session-'' @ r @ ''.tmp''"

text \<open>The deferred cleanup: \<open>_ = os.Remove(tmpPath)\<close>.\<close>

definition cleanup :: "os_behaviour \<Rightarrow> string \<Rightarrow> files \<Rightarrow> files" where
  "cleanup ob tmp fs = (if remove_fails ob then fs else fs(tmp := None))"

text \<open>
  The states of the temporary file while \<open>n\<close> bytes of the payload are written: a process
  killed during the write leaves one of them.
\<close>

definition writing :: "files \<Rightarrow> string \<Rightarrow> string \<Rightarrow> nat \<Rightarrow> files list" where
  "writing fs tmp payload n = map (\<lambda>k. fs(tmp \<mapsto> take k payload)) [0..<Suc (min n (length payload))]"

text \<open>
  Lines 156 to 190 of \<open>Save\<close>: create the temporary file, write, chmod, sync, close,
  rename. The result is the error (if any) and the states the directory goes through,
  the first one being the state before and the last one the state after; a process that
  is killed on the way leaves the directory in one of them.
\<close>

definition write_rename :: "os_behaviour \<Rightarrow> files \<Rightarrow> string \<Rightarrow> string \<Rightarrow> error option \<times> files list" where
  "write_rename ob fs target payload =
     (let tmp = tmpName (tmp_rand ob) in
      if fault ob = FailCreateTemp \<or> fs tmp \<noteq> None then (Some (IOError ''createtemp''), [fs])
      else
        let full = writing fs tmp payload (length payload);
            written = fs(tmp \<mapsto> payload)
        in case fault ob of
             FailWrite n \<Rightarrow>
               (Some (IOError ''write''),
                fs # writing fs tmp payload n @ [cleanup ob tmp (fs(tmp \<mapsto> take n payload))])
           | FailChmod \<Rightarrow> (Some (IOError ''chmod''), fs # full @ [cleanup ob tmp written])
           | FailSync \<Rightarrow> (Some (IOError ''sync''), fs # full @ [cleanup ob tmp written])
           | FailClose \<Rightarrow> (Some (IOError ''close''), fs # full @ [cleanup ob tmp written])
           | FailRename \<Rightarrow> (Some (IOError ''rename''), fs # full @ [cleanup ob tmp written])
           | _ \<Rightarrow> (None, fs # full @ [(written(tmp := None))(target \<mapsto> payload)]))"

text \<open>The check of the file name in \<open>Save\<close>.\<close>

definition invalidFilename :: "string \<Rightarrow> bool" where
  "invalidFilename filename =
     (filename = ''.'' \<or> \<not> IsLocal filename \<or> ContainsAny filename [CHR ''/'', CHR 0x5C])"

text \<open>
  \<open>Save_run\<close> is \<open>Save\<close> with the states of the directory it goes through. The receiver
  is a pointer that may be nil. The snapshot copies the messages (a list here, so the
  copy is the list).
\<close>

definition Save_run :: "world \<Rightarrow> SessionStore option \<Rightarrow> string \<Rightarrow> error option \<times> files list" where
  "Save_run w so sessionKey =
     (case so of
        None \<Rightarrow> (None, [files w])
      | Some s \<Rightarrow>
          if storage s = [] then (None, [files w])
          else
            let filename = sanitizeSessionFilename sessionKey in
            if invalidFilename filename then (Some ErrInvalid, [files w])
            else
              (case Mapping.lookup (SessionStore.sessions s) sessionKey of
                 None \<Rightarrow> (None, [files w])
               | Some session \<Rightarrow>
                   let snapshot = \<lparr>Key = Key session, Messages = Messages session,
                                   Created = Created session, Updated = Updated session\<rparr>
                   in (case marshal w snapshot of
                         Inl err \<Rightarrow> (Some err, [files w])
                       | Inr payload \<Rightarrow>
                           write_rename (os_plan w (saves w)) (files w) (filename @ ''.json'') payload)))"

definition Save :: "world \<Rightarrow> SessionStore option \<Rightarrow> string \<Rightarrow> error option \<times> world" where
  "Save w so sessionKey =
     (let (err, states) = Save_run w so sessionKey
      in (err, w\<lparr>files := last states, saves := Suc (saves w)\<rparr>))"

subsection \<open>AddMessage, History and the counts\<close>

definition AddMessage ::
  "world \<Rightarrow> SessionStore option \<Rightarrow> string \<Rightarrow> Message \<Rightarrow> error option \<times> SessionStore option \<times> world" where
  "AddMessage w so sessionKey msg =
     (case so of
        None \<Rightarrow> (None, None, w)
      | Some s \<Rightarrow>
          let key = TrimSpace sessionKey;
              key = (if key = [] then ''global'' else key);
              (session, w1) =
                (case Mapping.lookup (SessionStore.sessions s) key of
                   Some session \<Rightarrow> (session, w)
                 | None \<Rightarrow>
                     let (created, wa) = time_Now w;
                         (updated, wb) = time_Now wa
                     in (\<lparr>Key = key, Messages = [], Created = created, Updated = updated\<rparr>, wb));
              (updated, w2) = time_Now w1;
              session = session\<lparr>Messages := Messages session @ [msg], Updated := updated\<rparr>;
              s = s\<lparr>SessionStore.sessions := Mapping.update key session (SessionStore.sessions s)\<rparr>;
              (err, w3) = Save w2 (Some s) key
          in (err, Some s, w3))"

definition History :: "SessionStore option \<Rightarrow> string \<Rightarrow> Message list" where
  "History so sessionKey =
     (case so of
        None \<Rightarrow> []
      | Some s \<Rightarrow>
          let key = TrimSpace sessionKey;
              key = (if key = [] then ''global'' else key)
          in (case Mapping.lookup (SessionStore.sessions s) key of None \<Rightarrow> [] | Some session \<Rightarrow> Messages session))"

definition SessionCount :: "SessionStore option \<Rightarrow> nat" where
  "SessionCount so = (case so of None \<Rightarrow> 0 | Some s \<Rightarrow> Mapping.size (SessionStore.sessions s))"

definition TotalMessageCount :: "SessionStore option \<Rightarrow> nat" where
  "TotalMessageCount so =
     (case so of
        None \<Rightarrow> 0
      | Some s \<Rightarrow> (\<Sum>k \<in> Mapping.keys (SessionStore.sessions s).
             length (Messages (the (Mapping.lookup (SessionStore.sessions s) k)))))"

section \<open>The agent: memory, statistics, commands\<close>

definition NewAgent ::
  "string \<Rightarrow> (string \<Rightarrow> error + string) option \<Rightarrow> (string \<Rightarrow> error + string) option \<Rightarrow>
   SessionStore option \<Rightarrow> Agent" where
  "NewAgent prompt browserTool fetchTool store =
     \<lparr>systemPrompt =
        (if TrimSpace prompt = [] then
           ''You are ClawKangsar, a professional assistant running on a Raspberry Pi. Keep responses concise and use your browser tool only when real-time data is needed.''
         else prompt),
      browser = browserTool,
      webFetch = fetchTool,
      sessions = store,
      memory = [],
      maxMemory = 128\<rparr>"

definition remember :: "world \<Rightarrow> Agent \<Rightarrow> Message \<Rightarrow> nat \<times> Agent \<times> world" where
  "remember w a msg =
     (let mem = memory a @ [msg];
          mem = (if length mem > maxMemory a then drop (length mem - maxMemory a) mem else mem);
          currentSize = length mem;
          a = a\<lparr>memory := mem\<rparr>
      in case Agent.sessions a of
           None \<Rightarrow> (currentSize, a, w)
         | Some store \<Rightarrow>
             let sessionKey = messageSessionKey msg;
                 (err1, so1, w1) = AddMessage w (Some store) sessionKey msg;
                 (so2, w2) =
                   (if sessionKey \<noteq> ''global'' then
                      let (err2, so2, w2) = AddMessage w1 so1 ''global'' msg in (so2, w2)
                    else (so1, w1))
             in (currentSize, a\<lparr>Agent.sessions := so2\<rparr>, w2))"

definition Stats :: "Agent \<Rightarrow> AgentStats" where
  "Stats a =
     (case Agent.sessions a of
        None \<Rightarrow> \<lparr>InMemoryMessages = length (memory a), StoredSessions = 0, StoredMessages = 0\<rparr>
      | Some store \<Rightarrow>
          \<lparr>InMemoryMessages = length (memory a),
           StoredSessions = SessionCount (Some store),
           StoredMessages = TotalMessageCount (Some store)\<rparr>)"

text \<open>
  The slice \<open>msg.Text[len(prefix):]\<close> panics when the text is shorter than the prefix.
\<close>

definition sliceFrom :: "string \<Rightarrow> nat \<Rightarrow> error + string" where
  "sliceFrom text n =
     (if length text < n then Inl (Panic ''slice bounds out of range'') else Inr (drop n text))"

text \<open>The first lines of \<open>Process\<close>: trim the text, set a zero timestamp to now.\<close>

definition normalizeMessage :: "world \<Rightarrow> Message \<Rightarrow> Message \<times> world" where
  "normalizeMessage w msg =
     (let msg = msg\<lparr>Text := TrimSpace (Text msg)\<rparr>
      in if IsZero (Timestamp msg) then
           (let (now, w1) = time_Now w in (msg\<lparr>Timestamp := now\<rparr>, w1))
         else (msg, w))"

definition statusReply :: "AgentStats \<Rightarrow> string" where
  "statusReply stats =
     ''ClawKangsar status: memory='' @ itoa (int (InMemoryMessages stats)) @
     '' sessions='' @ itoa (int (StoredSessions stats)) @
     '' stored_messages='' @ itoa (int (StoredMessages stats))"

definition readyReply :: "Message \<Rightarrow> nat \<Rightarrow> string" where
  "readyReply msg memorySize =
     ''ClawKangsar ready. Channel='' @ Channel msg @ '' memory='' @ itoa (int memorySize)"

text \<open>The branch of the command \<open>/fetch\<close> (lines 72 to 80).\<close>

definition fetchCommand :: "(string \<Rightarrow> error + string) \<Rightarrow> Message \<Rightarrow> error + string" where
  "fetchCommand fetch msg =
     (case sliceFrom (Text msg) (length ''/fetch '') of
        Inl p \<Rightarrow> Inl p
      | Inr rest \<Rightarrow>
          let target = TrimSpace rest in
          if target = [] then Inr ''Provide a URL after /fetch.''
          else (case fetch target of
                  Inl err \<Rightarrow> Inl err
                | Inr text \<Rightarrow> truncate text 1200))"

text \<open>The branch of the command \<open>/browse\<close> (lines 84 to 105).\<close>

definition browseCommand :: "Agent \<Rightarrow> Message \<Rightarrow> error + string" where
  "browseCommand a msg =
     (case sliceFrom (Text msg) (length ''/browse '') of
        Inl p \<Rightarrow> Inl p
      | Inr rest \<Rightarrow>
          let target = TrimSpace rest in
          if target = [] then Inr ''Provide a URL after /browse.''
          else
            let fetched =
                  (case webFetch a of
                     None \<Rightarrow> None
                   | Some fetch \<Rightarrow>
                       (case fetch target of
                          Inl err \<Rightarrow> None
                        | Inr text \<Rightarrow> if TrimSpace text \<noteq> [] then Some text else None))
            in (case fetched of
                  Some text \<Rightarrow> truncate text 1200
                | None \<Rightarrow>
                    (case browser a of
                       None \<Rightarrow> Inr ''Browser tool unavailable.''
                     | Some browse \<Rightarrow>
                         (case browse target of
                            Inl err \<Rightarrow> Inl (WrapError ''browse failed'' err)
                          | Inr text \<Rightarrow> truncate text 1200))))"

definition Process :: "world \<Rightarrow> Agent \<Rightarrow> Message \<Rightarrow> (error + string) \<times> Agent \<times> world" where
  "Process w a msg =
     (let (msg, w) = normalizeMessage w msg in
      if Text msg = [] then (Inr [], a, w)
      else
        let (memorySize, a, w) = remember w a msg;
            lower = ToLower (unicodeLower w) (Text msg)
        in if HasPrefix lower ''/status'' then (Inr (statusReply (Stats a)), a, w)
           else if HasPrefix lower ''/fetch '' \<and> webFetch a \<noteq> None then
             (fetchCommand (the (webFetch a)) msg, a, w)
           else if HasPrefix lower ''/browse '' then (browseCommand a msg, a, w)
           else (Inr (readyReply msg memorySize), a, w))"

text \<open>A sequence of calls, one after the other.\<close>

fun rememberAll :: "world \<Rightarrow> Agent \<Rightarrow> Message list \<Rightarrow> Agent \<times> world" where
  "rememberAll w a [] = (a, w)"
| "rememberAll w a (msg # msgs) = (let (n, a1, w1) = remember w a msg in rememberAll w1 a1 msgs)"

fun ProcessAll :: "world \<Rightarrow> Agent \<Rightarrow> Message list \<Rightarrow> (error + string) list \<times> Agent \<times> world" where
  "ProcessAll w a [] = ([], a, w)"
| "ProcessAll w a (msg # msgs) =
     (let (reply, a1, w1) = Process w a msg;
          (replies, a2, w2) = ProcessAll w1 a1 msgs
      in (reply # replies, a2, w2))"

section \<open>The tools (internal/tools/webfetch.go, internal/tools/browser.go)\<close>

subsection \<open>Normalising an address\<close>

text \<open>
  \<open>url.Parse\<close> and \<open>URL.String\<close> belong to the library \<open>net/url\<close>; they are the
  parameters \<open>parse\<close> and \<open>str\<close>.
\<close>

definition normalizeWebURL ::
  "(string \<Rightarrow> error + 'u URL_scheme) \<Rightarrow> ('u URL_scheme \<Rightarrow> string) \<Rightarrow> string \<Rightarrow> error + string" where
  "normalizeWebURL parse str rawURL =
     (let v = TrimSpace rawURL in
      if v = [] then Inl (ErrorString ''url is required'')
      else
        let v = (if \<not> Contains v ''://'' then ''https://'' @ v else v) in
        (case parse v of
           Inl err \<Rightarrow> Inl (WrapError ''invalid url'' err)
         | Inr parsed \<Rightarrow>
             if Scheme parsed \<noteq> ''http'' \<and> Scheme parsed \<noteq> ''https'' then
               Inl (ErrorString ''only http/https urls are supported'')
             else if Host parsed = [] then Inl (ErrorString ''url host is required'')
             else Inr (str parsed)))"

definition normalizeURL ::
  "(string \<Rightarrow> error + 'u URL_scheme) \<Rightarrow> ('u URL_scheme \<Rightarrow> string) \<Rightarrow> string \<Rightarrow> error + string" where
  "normalizeURL parse str rawURL =
     (let v = TrimSpace rawURL in
      if v = [] then Inl (ErrorString ''url is required'')
      else
        let v = (if \<not> Contains v ''://'' then ''https://'' @ v else v) in
        (case parse v of
           Inl err \<Rightarrow> Inl (WrapError ''invalid url'' err)
         | Inr parsed \<Rightarrow>
             if Scheme parsed \<noteq> ''http'' \<and> Scheme parsed \<noteq> ''https'' then
               Inl (ErrorString ''only http/https urls are supported'')
             else if Host parsed = [] then Inl (ErrorString ''url host is required'')
             else Inr (str parsed)))"

subsection \<open>The fetch tool\<close>

text \<open>
  \<open>WebFetcher.Fetch\<close>: the address is normalised first. The request and the reading of
  the answer (lines 63 to 102) are the parameter \<open>exchange\<close>, a function of the
  normalised address. The second component lists the addresses that were requested.
\<close>

definition Fetch ::
  "(string \<Rightarrow> error + 'u URL_scheme) \<Rightarrow> ('u URL_scheme \<Rightarrow> string) \<Rightarrow> (string \<Rightarrow> error + string) \<Rightarrow>
   string \<Rightarrow> (error + string) \<times> string list" where
  "Fetch parse str exchange rawURL =
     (case normalizeWebURL parse str rawURL of
        Inl err \<Rightarrow> (Inl err, [])
      | Inr target \<Rightarrow> (exchange target, [target]))"

subsection \<open>The browser\<close>

text \<open>
  Each of \<open>acquireBrowser\<close>, \<open>touch\<close>, \<open>KillIfIdle\<close> and the second half of \<open>Close\<close>
  locks the mutex of the browser on entry and unlocks it on return, so calls from several
  goroutines run one after the other, in some order: a function here is one such call.
\<close>

definition defaultIdleTimeout :: int where
  "defaultIdleTimeout = 5 * 60 * 1000000000"

definition maxBodySize :: nat where
  "maxBodySize = 4000"

definition NewBrowser :: "int \<Rightarrow> Browser" where
  "NewBrowser timeout =
     \<lparr>idleTimeout = (if timeout \<le> 0 then defaultIdleTimeout else timeout),
      allocCancel = False, browserCancel = False, browserCtx = None, lastUsed = 0\<rparr>"

text \<open>
  A start that fails cancels both contexts, which ends the process if one was launched:
  the list of running browsers is as before.
\<close>

definition acquireBrowser :: "world \<Rightarrow> Browser \<Rightarrow> (error + nat) \<times> Browser \<times> world" where
  "acquireBrowser w b =
     (case browserCtx b of
        Some ctx \<Rightarrow> (let (now, w1) = time_Now w in (Inr ctx, b\<lparr>lastUsed := now\<rparr>, w1))
      | None \<Rightarrow>
          (let w1 = w\<lparr>starts := Suc (starts w)\<rparr> in
           case start_outcome w (starts w) of
             Inl err \<Rightarrow> (Inl (WrapError ''start browser'' err), b, w1)
           | Inr ctx \<Rightarrow>
               let w2 = w1\<lparr>procs := ctx # procs w1\<rparr>;
                   (now, w3) = time_Now w2
               in (Inr ctx,
                   b\<lparr>allocCancel := True, browserCancel := True, browserCtx := Some ctx,
                     lastUsed := now\<rparr>,
                   w3)))"

definition touch :: "world \<Rightarrow> Browser \<Rightarrow> Browser \<times> world" where
  "touch w b = (let (now, w1) = time_Now w in (b\<lparr>lastUsed := now\<rparr>, w1))"

definition killLocked :: "world \<Rightarrow> Browser \<Rightarrow> Browser \<times> world" where
  "killLocked w b =
     (case browserCtx b of
        None \<Rightarrow> (b, w)
      | Some ctx \<Rightarrow>
          (b\<lparr>allocCancel := False, browserCancel := False, browserCtx := None, lastUsed := 0\<rparr>,
           if browserCancel b \<or> allocCancel b then w\<lparr>procs := removeAll ctx (procs w)\<rparr> else w))"

definition KillIfIdle :: "world \<Rightarrow> Browser \<Rightarrow> bool \<times> Browser \<times> world" where
  "KillIfIdle w b =
     (if browserCtx b = None then (False, b, w)
      else
        let (now, w1) = time_Now w in
        if now - lastUsed b < idleTimeout b then (False, b, w1)
        else (let (b1, w2) = killLocked w1 b in (True, b1, w2)))"

definition Close :: "world \<Rightarrow> Browser \<Rightarrow> Browser \<times> world" where
  "Close w b = killLocked w b"

text \<open>
  \<open>Browse\<close>: the navigation (\<open>chromedp.Run\<close> with its three actions) is the parameter
  \<open>navigate\<close>, a function of the browser and the address.
\<close>

definition Browse ::
  "(string \<Rightarrow> error + 'u URL_scheme) \<Rightarrow> ('u URL_scheme \<Rightarrow> string) \<Rightarrow> (nat \<Rightarrow> string \<Rightarrow> error + string) \<Rightarrow>
   world \<Rightarrow> Browser \<Rightarrow> string \<Rightarrow> (error + string) \<times> Browser \<times> world" where
  "Browse parse str navigate w b rawURL =
     (case normalizeURL parse str rawURL of
        Inl err \<Rightarrow> (Inl err, b, w)
      | Inr target \<Rightarrow>
          (case acquireBrowser w b of
             (Inl err, b1, w1) \<Rightarrow> (Inl err, b1, w1)
           | (Inr runCtx, b1, w1) \<Rightarrow>
               let result = navigate runCtx target;
                   (b2, w2) = touch w1 b1
               in (case result of
                     Inl err \<Rightarrow> (Inl (WrapError (''browse '' @ target) err), b2, w2)
                   | Inr body \<Rightarrow>
                       let body = TrimSpace body;
                           body = (if length body > maxBodySize then take maxBodySize body else body)
                       in (Inr body, b2, w2))))"

text \<open>The calls of \<open>acquireBrowser\<close> by \<open>n\<close> goroutines, in the order in which they get the lock.\<close>

fun acquireMany :: "nat \<Rightarrow> world \<Rightarrow> Browser \<Rightarrow> (error + nat) list \<times> Browser \<times> world" where
  "acquireMany 0 w b = ([], b, w)"
| "acquireMany (Suc n) w b =
     (let (r, b1, w1) = acquireBrowser w b;
          (rs, b2, w2) = acquireMany n w1 b1
      in (r # rs, b2, w2))"

section \<open>Vocabulary of the properties, and concrete inputs\<close>

text \<open>
  The key under which the store files a session: \<open>AddMessage\<close> and \<open>History\<close> both trim
  the key they are given and replace a blank one by \<open>global\<close>.
\<close>

definition storeKey :: "string \<Rightarrow> string" where
  "storeKey k = (let key = TrimSpace k in if key = [] then ''global'' else key)"

text \<open>The last \<open>n\<close> elements of a list, in their order.\<close>

definition lastN :: "nat \<Rightarrow> 'a list \<Rightarrow> 'a list" where
  "lastN n xs = drop (length xs - n) xs"

text \<open>A text cut to 1200 bytes, with the marker when it was longer.\<close>

definition capped :: "string \<Rightarrow> string" where
  "capped text = (if length text \<le> 1200 then text else take 1200 text @ ''...'')"

text \<open>
  A world to run the model in: a clock that ticks, an empty directory, an operating
  system without faults, a stand-in for the JSON encoder, browsers that start.
\<close>

definition encode0 :: "Session \<Rightarrow> error + string" where
  "encode0 s = Inr (Key s @ ''|'' @ concat (map Text (Messages s)))"

definition world0 :: world where
  "world0 =
     \<lparr>nows = (\<lambda>i. 1000 + int i), ticks = 0, files = Map.empty,
      os_plan = (\<lambda>i. \<lparr>tmp_rand = ''123'', fault = NoFault, remove_fails = False\<rparr>), saves = 0,
      marshal = encode0, unicodeLower = (\<lambda>s. s),
      start_outcome = (\<lambda>i. Inr i), starts = 0, procs = []\<rparr>"

definition store0 :: SessionStore where
  "store0 = \<lparr>storage = ''sessions'', SessionStore.sessions = Mapping.empty\<rparr>"

definition page0 :: "string \<Rightarrow> error + string" where
  "page0 u = Inr (''page of '' @ u)"

definition agent0 :: Agent where
  "agent0 = NewAgent '''' None (Some page0) (Some store0)"

definition msg0 :: Message where
  "msg0 = \<lparr>Channel = ''telegram'', UserID = ''7'', ChatID = ''42'', Text = ''hello'', Timestamp = 5\<rparr>"

text \<open>
  A directory that holds an older file of the session \<open>k\<close>, a store with that session in
  memory, and an operating system whose \<open>Sync\<close> fails.
\<close>

definition store1 :: SessionStore where
  "store1 =
     \<lparr>storage = ''sessions'',
      SessionStore.sessions =
        Mapping.update ''k'' \<lparr>Key = ''k'', Messages = [msg0], Created = 1, Updated = 2\<rparr> Mapping.empty\<rparr>"

definition sync_fails :: "nat \<Rightarrow> os_behaviour" where
  "sync_fails i = \<lparr>tmp_rand = ''123'', fault = FailSync, remove_fails = False\<rparr>"

definition world1 :: world where
  "world1 = world0\<lparr>files := [''k.json'' \<mapsto> ''old'']\<rparr>"

definition world2 :: world where
  "world2 = world1\<lparr>os_plan := sync_fails\<rparr>"

text \<open>
  \<open>normalized_of m' m\<close>: the message \<open>m'\<close> is what \<open>Process\<close> makes of \<open>m\<close> before it handles
  it: the text trimmed, and a zero timestamp replaced by some reading of the clock.
\<close>

definition normalized_of :: "Message \<Rightarrow> Message \<Rightarrow> bool" where
  "normalized_of m' m =
     (\<exists>t. m' = m\<lparr>Text := TrimSpace (Text m),
                   Timestamp := (if IsZero (Timestamp m) then t else Timestamp m)\<rparr>)"

text \<open>A message as \<open>msg0\<close>, from a channel written with a leading space.\<close>

definition msg1 :: Message where
  "msg1 = \<lparr>Channel = '' telegram'', UserID = ''7'', ChatID = ''42'', Text = ''again'', Timestamp = 6\<rparr>"

text \<open>A message with the command \<open>/fetch\<close> and an address.\<close>

definition msg2 :: Message where
  "msg2 = \<lparr>Channel = ''telegram'', UserID = ''7'', ChatID = ''42'', Text = ''/fetch example.com'',
            Timestamp = 7\<rparr>"

text \<open>
  The address that is handed to the parser: the trimmed input, with \<open>https://\<close> in front
  when it holds no \<open>://\<close>.
\<close>

definition withScheme :: "string \<Rightarrow> string" where
  "withScheme rawURL =
     (if Contains (TrimSpace rawURL) ''://'' then TrimSpace rawURL else ''https://'' @ TrimSpace rawURL)"

text \<open>
  What \<open>net/url\<close> does on the three addresses of the examples: \<open>https://example.com\<close>
  parses to the scheme \<open>https\<close> and the host \<open>example.com\<close> and prints as it was;
  \<open>ftp://x.com\<close>, if it parses, has the scheme \<open>ftp\<close>; \<open>https://\<close>, if it parses, has an
  empty host.
\<close>

definition net_url_examples ::
  "(string \<Rightarrow> error + 'u URL_scheme) \<Rightarrow> ('u URL_scheme \<Rightarrow> string) \<Rightarrow> bool" where
  "net_url_examples parse str =
     ((\<exists>u. parse ''https://example.com'' = Inr u \<and> Scheme u = ''https'' \<and>
           Host u = ''example.com'' \<and> str u = ''https://example.com'') \<and>
      (\<forall>u. parse ''ftp://x.com'' = Inr u \<longrightarrow> Scheme u = ''ftp'') \<and>
      (\<forall>u. parse ''https://'' = Inr u \<longrightarrow> Host u = []))"

text \<open>A parser and a printer that do this, to run the model with.\<close>

definition parse0 :: "string \<Rightarrow> error + URL" where
  "parse0 s =
     (if s = ''https://example.com'' then Inr \<lparr>Scheme = ''https'', Host = ''example.com''\<rparr>
      else if s = ''ftp://x.com'' then Inr \<lparr>Scheme = ''ftp'', Host = ''x.com''\<rparr>
      else if s = ''https://'' then Inr \<lparr>Scheme = ''https'', Host = []\<rparr>
      else Inl (ErrorString ''parse''))"

definition str0 :: "URL \<Rightarrow> string" where
  "str0 u = Scheme u @ ''://'' @ Host u"

text \<open>
  The browser and the running processes agree: the browser that the context names is the
  one process that runs, its cancel functions are set, and nothing runs when there is no
  context.
\<close>

definition one_live :: "world \<Rightarrow> Browser \<Rightarrow> bool" where
  "one_live w b =
     (case browserCtx b of
        None \<Rightarrow> procs w = []
      | Some ctx \<Rightarrow> procs w = [ctx] \<and> browserCancel b \<and> allocCancel b)"

text \<open>A world in which the first start of a browser fails and the later ones give browser 7.\<close>

definition fails_once :: "nat \<Rightarrow> error + nat" where
  "fails_once i = (if i = 0 then Inl (ErrorString ''exec: chromium not found'') else Inr 7)"

definition world3 :: world where
  "world3 = world0\<lparr>start_outcome := fails_once\<rparr>"

section \<open>Properties of the string functions\<close>

lemma spaceRunes_nonempty: "w \<in> set spaceRunes \<Longrightarrow> w \<noteq> []"
  by (auto simp: spaceRunes_def asciiSpace_def)

lemma spaceRunes_length:
  "w \<in> set spaceRunes \<Longrightarrow>
   length w = (if (of_char (hd w) :: nat) < 128 then 1 else if hd w = CHR 0xC2 then 2 else 3)"
  by (auto simp: spaceRunes_def asciiSpace_def)

lemma spaceRunes_prefix_free:
  assumes "w \<in> set spaceRunes" "w' \<in> set spaceRunes" "prefix w w'"
  shows "w = w'"
proof -
  from assms(1) have "w \<noteq> []" by (rule spaceRunes_nonempty)
  with assms(3) have "hd w = hd w'" by (auto simp: prefix_def)
  with spaceRunes_length [OF assms(1)] spaceRunes_length [OF assms(2)]
  have "length w = length w'" by simp
  with assms(3) show ?thesis by (auto simp: prefix_def)
qed

lemma spaceLen_0_iff: "spaceLen s = 0 \<longleftrightarrow> (\<forall>w \<in> set spaceRunes. \<not> prefix w s)"
proof (cases "filter (\<lambda>w. prefix w s) spaceRunes")
  case Nil
  then show ?thesis by (simp add: spaceLen_def filter_empty_conv)
next
  case (Cons w ws)
  then have "w \<in> set (filter (\<lambda>w. prefix w s) spaceRunes)" by simp
  then have w: "w \<in> set spaceRunes" "prefix w s" by simp_all
  then have "w \<noteq> []" by (simp add: spaceRunes_nonempty)
  with Cons w show ?thesis by (auto simp: spaceLen_def)
qed

lemma spaceLen_rune:
  assumes "spaceLen s \<noteq> 0"
  shows "\<exists>w \<in> set spaceRunes. s = w @ drop (spaceLen s) s \<and> length w = spaceLen s"
proof (cases "filter (\<lambda>w. prefix w s) spaceRunes")
  case Nil
  with assms show ?thesis by (simp add: spaceLen_def)
next
  case (Cons w ws)
  then have "w \<in> set (filter (\<lambda>w. prefix w s) spaceRunes)" by simp
  then have w: "w \<in> set spaceRunes" "prefix w s" by simp_all
  from Cons have len: "spaceLen s = length w" by (simp add: spaceLen_def)
  from w(2) obtain r where "s = w @ r" by (auto simp: prefix_def)
  with len w(1) show ?thesis by auto
qed

lemma trimLeft_decomp: "\<exists>ws. set ws \<subseteq> set spaceRunes \<and> s = concat ws @ trimLeft s"
proof (induction s rule: trimLeft.induct)
  case (1 s)
  show ?case
  proof (cases "spaceLen s = 0")
    case True
    then have "s = concat [] @ trimLeft s" by (simp add: trimLeft.simps)
    then show ?thesis by (metis empty_set empty_subsetI)
  next
    case False
    from spaceLen_rune [OF False] obtain w where
      w: "w \<in> set spaceRunes" "s = w @ drop (spaceLen s) s" by blast
    from 1 [OF False] obtain ws where
      ws: "set ws \<subseteq> set spaceRunes" "drop (spaceLen s) s = concat ws @ trimLeft (drop (spaceLen s) s)"
      by blast
    from False have t: "trimLeft s = trimLeft (drop (spaceLen s) s)"
      by (subst trimLeft.simps) simp
    have "s = concat (w # ws) @ trimLeft s"
      using w(2) ws(2) t by (metis append.assoc concat.simps(2))
    moreover have "set (w # ws) \<subseteq> set spaceRunes" using w(1) ws(1) by simp
    ultimately show ?thesis by blast
  qed
qed

lemma spaceLen_trimLeft: "spaceLen (trimLeft s) = 0"
proof (induction s rule: trimLeft.induct)
  case (1 s)
  show ?case
  proof (cases "spaceLen s = 0")
    case True
    then show ?thesis by (simp add: trimLeft.simps)
  next
    case False
    from False have "trimLeft s = trimLeft (drop (spaceLen s) s)"
      by (subst trimLeft.simps) simp
    with 1 [OF False] show ?thesis by simp
  qed
qed

lemma spaceLenR_rune:
  assumes "spaceLenR s \<noteq> 0"
  shows "\<exists>w \<in> set spaceRunes. s = take (length s - spaceLenR s) s @ w"
proof (cases "filter (\<lambda>w. suffix w s) spaceRunes")
  case Nil
  with assms show ?thesis by (simp add: spaceLenR_def)
next
  case (Cons w ws)
  then have "w \<in> set (filter (\<lambda>w. suffix w s) spaceRunes)" by simp
  then have w: "w \<in> set spaceRunes" "suffix w s" by simp_all
  from Cons have len: "spaceLenR s = length w" by (simp add: spaceLenR_def)
  from w(2) obtain r where "s = r @ w" by (auto simp: suffix_def)
  with len w(1) show ?thesis by auto
qed

lemma trimRight_decomp: "\<exists>ws. set ws \<subseteq> set spaceRunes \<and> s = trimRight s @ concat ws"
proof (induction s rule: trimRight.induct)
  case (1 s)
  show ?case
  proof (cases "spaceLenR s = 0")
    case True
    then have "s = trimRight s @ concat []" by (simp add: trimRight.simps)
    then show ?thesis by (metis empty_set empty_subsetI)
  next
    case False
    let ?r = "take (length s - spaceLenR s) s"
    from spaceLenR_rune [OF False] obtain w where
      w: "w \<in> set spaceRunes" "s = ?r @ w" by blast
    from 1 [OF False] obtain ws where
      ws: "set ws \<subseteq> set spaceRunes" "?r = trimRight ?r @ concat ws"
      by blast
    from False have t: "trimRight s = trimRight ?r"
      by (subst trimRight.simps) simp
    have "s = trimRight s @ concat (ws @ [w])"
      using w(2) ws(2) t by (metis append.assoc concat_append concat.simps append_Nil2)
    moreover have "set (ws @ [w]) \<subseteq> set spaceRunes" using w(1) ws(1) by simp
    ultimately show ?thesis by blast
  qed
qed

lemma spaceLen_rune_append:
  assumes "w \<in> set spaceRunes"
  shows "spaceLen (w @ r) = length w"
proof (cases "filter (\<lambda>v. prefix v (w @ r)) spaceRunes")
  case Nil
  then have "\<forall>v \<in> set spaceRunes. \<not> prefix v (w @ r)" by (simp add: filter_empty_conv)
  with assms have "\<not> prefix w (w @ r)" by blast
  then show ?thesis by simp
next
  case (Cons v vs)
  then have "v \<in> set (filter (\<lambda>v. prefix v (w @ r)) spaceRunes)" by simp
  then have v: "v \<in> set spaceRunes" "prefix v (w @ r)" by simp_all
  have "prefix w (w @ r)" by simp
  with v(2) have "prefix v w \<or> prefix w v" by (rule prefix_same_cases)
  with v(1) assms have "v = w" by (auto dest: spaceRunes_prefix_free)
  with Cons show ?thesis by (simp add: spaceLen_def)
qed

lemma trimLeft_blank: "set ws \<subseteq> set spaceRunes \<Longrightarrow> trimLeft (concat ws @ r) = trimLeft r"
proof (induction ws)
  case Nil
  then show ?case by simp
next
  case (Cons w ws)
  then have w: "w \<in> set spaceRunes" by simp
  then have "w \<noteq> []" by (rule spaceRunes_nonempty)
  with spaceLen_rune_append [OF w, of "concat ws @ r"]
  have "trimLeft (w @ concat ws @ r) = trimLeft (concat ws @ r)"
    by (subst trimLeft.simps) simp
  with Cons show ?case by simp
qed

lemma trimLeft_Nil: "trimLeft [] = []"
  using spaceLen_le [of "[]"] by (subst trimLeft.simps) simp

lemma trimRight_Nil: "trimRight [] = []"
  using spaceLenR_le [of "[]"] by (subst trimRight.simps) simp

lemma TrimSpace_blank_iff: "TrimSpace s = [] \<longleftrightarrow> blank s"
proof
  assume "blank s"
  then obtain ws where "set ws \<subseteq> set spaceRunes" "s = concat ws" by (auto simp: blank_def)
  with trimLeft_blank [of ws "[]"] have "trimLeft s = []" by (simp add: trimLeft_Nil)
  then show "TrimSpace s = []" by (simp add: TrimSpace_def trimRight_Nil)
next
  assume a: "TrimSpace s = []"
  obtain vs where vs: "set vs \<subseteq> set spaceRunes" "trimLeft s = trimRight (trimLeft s) @ concat vs"
    using trimRight_decomp by blast
  with a have t: "trimLeft s = concat vs" by (simp add: TrimSpace_def)
  have "trimLeft s = []"
  proof (rule ccontr)
    assume ne: "trimLeft s \<noteq> []"
    with t have "vs \<noteq> []" by auto
    then obtain v vs' where "vs = v # vs'" by (cases vs) auto
    with t vs(1) have "v \<in> set spaceRunes" "prefix v (trimLeft s)" by auto
    then have "spaceLen (trimLeft s) \<noteq> 0" by (auto simp: spaceLen_0_iff)
    then show False by (simp add: spaceLen_trimLeft)
  qed
  moreover obtain ws where "set ws \<subseteq> set spaceRunes" "s = concat ws @ trimLeft s"
    using trimLeft_decomp by blast
  ultimately show "blank s" by (auto simp: blank_def)
qed

lemma TrimSpace_decomp:
  "\<exists>ws vs. set ws \<subseteq> set spaceRunes \<and> set vs \<subseteq> set spaceRunes \<and> s = concat ws @ TrimSpace s @ concat vs"
proof -
  obtain ws where ws: "set ws \<subseteq> set spaceRunes" "s = concat ws @ trimLeft s"
    using trimLeft_decomp by blast
  obtain vs where vs: "set vs \<subseteq> set spaceRunes" "trimLeft s = trimRight (trimLeft s) @ concat vs"
    using trimRight_decomp by blast
  from ws(2) vs(2) have "s = concat ws @ TrimSpace s @ concat vs" by (simp add: TrimSpace_def)
  with ws(1) vs(1) show ?thesis by blast
qed

lemma TrimSpace_keeps:
  assumes "c \<in> set s" and "\<forall>w \<in> set spaceRunes. c \<notin> set w"
  shows "c \<in> set (TrimSpace s)"
proof -
  obtain ws vs where d: "set ws \<subseteq> set spaceRunes" "set vs \<subseteq> set spaceRunes"
    "s = concat ws @ TrimSpace s @ concat vs"
    using TrimSpace_decomp by blast
  from d(1,2) assms(2) have "c \<notin> set (concat ws)" "c \<notin> set (concat vs)" by auto
  moreover from assms(1) d(3) have "c \<in> set (concat ws) \<union> set (TrimSpace s) \<union> set (concat vs)"
    by (metis set_append Un_assoc)
  ultimately show ?thesis by blast
qed

lemma colon_no_space: "\<forall>w \<in> set spaceRunes. CHR '':'' \<notin> set w"
  by (simp add: spaceRunes_def asciiSpace_def)

lemma slash_no_space: "\<forall>w \<in> set spaceRunes. CHR ''/'' \<notin> set w \<and> CHR 0x5C \<notin> set w"
  by (simp add: spaceRunes_def asciiSpace_def)

lemma TrimSpace_global: "TrimSpace ''global'' = ''global''"
  by code_simp

section \<open>The session key of a message\<close>

text \<open>
  Claim C4, as stated, fails: a channel that is a single space is not empty, yet the key
  of the message is not built from it, and the user identifier enters the key trimmed.
\<close>

theorem messageSessionKey_counterexample:
  "messageSessionKey \<lparr>Channel = '' '', UserID = '''', ChatID = ''42'', Text = ''hi'', Timestamp = 0\<rparr>
     = ''global'' \<and>
   messageSessionKey \<lparr>Channel = '' '', UserID = '''', ChatID = ''42'', Text = ''hi'', Timestamp = 0\<rparr>
     \<noteq> '' '' @ '':'' @ ''42'' \<and>
   messageSessionKey \<lparr>Channel = '''', UserID = '' bob '', ChatID = '''', Text = ''hi'', Timestamp = 0\<rparr>
     = ''user:bob'' \<and>
   messageSessionKey \<lparr>Channel = '''', UserID = '' bob '', ChatID = '''', Text = ''hi'', Timestamp = 0\<rparr>
     \<noteq> ''user:'' @ '' bob ''"
  by code_simp

text \<open>
  Claim C4, amended: the key is channel, colon, chat identifier (both as given) when
  neither the channel nor the chat identifier is blank (empty or white space only);
  otherwise it is \<open>user:\<close> followed by the user identifier with the white space around
  it removed, when the user identifier is not blank; otherwise it is \<open>global\<close>.
\<close>

theorem messageSessionKey_spec:
  "messageSessionKey msg =
     (if \<not> blank (Channel msg) \<and> \<not> blank (ChatID msg) then Channel msg @ '':'' @ ChatID msg
      else if \<not> blank (UserID msg) then ''user:'' @ TrimSpace (UserID msg)
      else ''global'')"
  by (simp add: messageSessionKey_def TrimSpace_blank_iff)

theorem messageSessionKey_spec_witness:
  "messageSessionKey \<lparr>Channel = ''telegram'', UserID = ''7'', ChatID = ''42'', Text = ''hi'', Timestamp = 0\<rparr>
     = ''telegram:42''"
proof -
  have "TrimSpace ''telegram'' \<noteq> []" by code_simp
  then have c: "\<not> blank ''telegram''" by (simp add: TrimSpace_blank_iff)
  have "TrimSpace ''42'' \<noteq> []" by code_simp
  then have d: "\<not> blank ''42''" by (simp add: TrimSpace_blank_iff)
  show ?thesis
    using c d
      messageSessionKey_spec [of "\<lparr>Channel = ''telegram'', UserID = ''7'', ChatID = ''42'', Text = ''hi'', Timestamp = 0\<rparr>"]
    by simp
qed

section \<open>Properties of the session store\<close>

lemma storeKey_global: "storeKey ''global'' = ''global''"
  by (simp add: storeKey_def TrimSpace_global)

lemma storeKey_blank: "blank k \<Longrightarrow> storeKey k = ''global''"
  by (simp add: storeKey_def TrimSpace_blank_iff)

lemma History_storeKey:
  "History (Some s) k = (case Mapping.lookup (SessionStore.sessions s) (storeKey k) of None \<Rightarrow> [] | Some session \<Rightarrow> Messages session)"
  by (simp add: History_def storeKey_def Let_def)

lemma AddMessage_Some: "\<exists>s'. fst (snd (AddMessage w (Some s) k msg)) = Some s' \<and> storage s' = storage s"
  by (simp add: AddMessage_def Let_def split_def split: option.splits)

lemma History_AddMessage:
  "History (fst (snd (AddMessage w (Some s) k msg))) k' =
     (if storeKey k' = storeKey k then History (Some s) k' @ [msg] else History (Some s) k')"
  by (simp add: AddMessage_def History_storeKey storeKey_def Let_def split_def Mapping.lookup_update'
           split: option.splits)

lemma keys_AddMessage:
  "fst (snd (AddMessage w (Some s) k msg)) = Some s' \<Longrightarrow>
   Mapping.keys (SessionStore.sessions s') = insert (storeKey k) (Mapping.keys (SessionStore.sessions s))"
  by (auto simp add: AddMessage_def storeKey_def Let_def split_def split: option.splits)

lemma AddMessage_storeKey:
  "storeKey k = storeKey k' \<Longrightarrow> AddMessage w so k msg = AddMessage w so k' msg"
  by (simp add: AddMessage_def storeKey_def Let_def cong: option.case_cong)

lemma spaceLenR_0_iff: "spaceLenR s = 0 \<longleftrightarrow> (\<forall>w \<in> set spaceRunes. \<not> suffix w s)"
proof (cases "filter (\<lambda>w. suffix w s) spaceRunes")
  case Nil
  then show ?thesis by (simp add: spaceLenR_def filter_empty_conv)
next
  case (Cons w ws)
  then have "w \<in> set (filter (\<lambda>w. suffix w s) spaceRunes)" by simp
  then have w: "w \<in> set spaceRunes" "suffix w s" by simp_all
  then have "w \<noteq> []" by (simp add: spaceRunes_nonempty)
  with Cons w show ?thesis by (auto simp: spaceLenR_def)
qed

lemma spaceLenR_trimRight: "spaceLenR (trimRight s) = 0"
proof (induction s rule: trimRight.induct)
  case (1 s)
  show ?case
  proof (cases "spaceLenR s = 0")
    case True
    then show ?thesis by (simp add: trimRight.simps)
  next
    case False
    from False have "trimRight s = trimRight (take (length s - spaceLenR s) s)"
      by (subst trimRight.simps) simp
    with 1 [OF False] show ?thesis by simp
  qed
qed

lemma trimRight_prefix: "prefix (trimRight s) s"
proof -
  obtain ws where "s = trimRight s @ concat ws" using trimRight_decomp by blast
  then show ?thesis by (metis prefixI)
qed

lemma TrimSpace_idem: "TrimSpace (TrimSpace s) = TrimSpace s"
proof -
  let ?t = "TrimSpace s"
  have "\<forall>w \<in> set spaceRunes. \<not> prefix w (trimLeft s)"
    using spaceLen_trimLeft [of s] by (simp add: spaceLen_0_iff)
  moreover have "prefix ?t (trimLeft s)" by (simp add: TrimSpace_def trimRight_prefix)
  ultimately have "\<forall>w \<in> set spaceRunes. \<not> prefix w ?t" by (meson prefix_order.trans)
  then have "spaceLen ?t = 0" by (simp add: spaceLen_0_iff)
  then have l: "trimLeft ?t = ?t" by (subst trimLeft.simps) simp
  have "spaceLenR ?t = 0" by (simp add: TrimSpace_def spaceLenR_trimRight)
  then have "trimRight ?t = ?t" by (subst trimRight.simps) simp
  with l show ?thesis by (simp add: TrimSpace_def [of ?t])
qed

lemma TrimSpace_subset: "set (TrimSpace s) \<subseteq> set s"
proof -
  obtain ws vs where "s = concat ws @ TrimSpace s @ concat vs" using TrimSpace_decomp by blast
  then have "set s = set (concat ws) \<union> set (TrimSpace s) \<union> set (concat vs)"
    by (metis set_append Un_assoc)
  then show ?thesis by blast
qed

lemma TrimSpace_storeKey: "TrimSpace (storeKey k) = storeKey k"
  by (simp add: storeKey_def Let_def TrimSpace_global TrimSpace_idem)

lemma storeKey_idem: "storeKey (storeKey k) = storeKey k"
  by (simp add: storeKey_def [of "storeKey k"] TrimSpace_storeKey Let_def) (simp add: storeKey_def Let_def)

lemma splitSlash_plain: "CHR ''/'' \<notin> set f \<Longrightarrow> splitSlash acc f = [rev acc @ f]"
  by (induction f arbitrary: acc) auto

lemma IsLocal_plain:
  assumes "CHR ''/'' \<notin> set f"
  shows "IsLocal f \<longleftrightarrow> f \<noteq> [] \<and> f \<noteq> ''..''"
proof (cases "f = []")
  case True
  then show ?thesis by (simp add: IsLocal_def)
next
  case False
  from assms False have np: "\<not> HasPrefix f ''/''"
    by (cases f) (auto simp: HasPrefix_def)
  from assms have np2: "\<not> HasPrefix f ''../''"
    by (auto simp: HasPrefix_def prefix_def)
  consider "f = ''.''" | "f = ''..''" | "f \<noteq> ''.''" "f \<noteq> ''..''" by blast
  then show ?thesis
  proof cases
    case 1
    then show ?thesis by (simp add: IsLocal_def HasPrefix_def Clean_def)
  next
    case 2
    then show ?thesis by (simp add: IsLocal_def HasPrefix_def Clean_def)
  next
    case 3
    with False np np2 assms show ?thesis
      by (simp add: IsLocal_def splitSlash_plain Let_def)
  qed
qed

lemma invalidFilename_iff:
  "invalidFilename f \<longleftrightarrow>
     f = [] \<or> f = ''.'' \<or> f = ''..'' \<or> CHR ''/'' \<in> set f \<or> CHR 0x5C \<in> set f"
proof (cases "CHR ''/'' \<in> set f")
  case True
  then show ?thesis by (auto simp: invalidFilename_def ContainsAny_def list_ex_iff)
next
  case False
  then show ?thesis
    by (auto simp: invalidFilename_def ContainsAny_def list_ex_iff IsLocal_plain)
qed

lemma sanitize_set:
  "c \<noteq> CHR '':'' \<Longrightarrow> c \<noteq> CHR ''_'' \<Longrightarrow> c \<in> set (sanitizeSessionFilename k) \<longleftrightarrow> c \<in> set (TrimSpace k)"
  by (auto simp: sanitizeSessionFilename_def ReplaceAll_colon_def)

lemma sanitize_no_colon: "CHR '':'' \<notin> set (sanitizeSessionFilename k)"
  by (auto simp: sanitizeSessionFilename_def ReplaceAll_colon_def)

lemma ReplaceAll_colon_id: "CHR '':'' \<notin> set x \<Longrightarrow> ReplaceAll_colon x = x"
  unfolding ReplaceAll_colon_def by (rule map_idI) auto

lemma ReplaceAll_colon_eqD:
  assumes "ReplaceAll_colon x = y" and "CHR ''_'' \<notin> set y"
  shows "x = y"
proof -
  have "CHR '':'' \<notin> set x"
  proof
    assume "CHR '':'' \<in> set x"
    then have "CHR ''_'' \<in> set (ReplaceAll_colon x)"
      unfolding ReplaceAll_colon_def by (force simp: image_iff)
    with assms show False by simp
  qed
  with assms(1) show ?thesis by (simp add: ReplaceAll_colon_id)
qed

lemma sanitize_eq_plain:
  assumes "CHR '':'' \<notin> set y" and "CHR ''_'' \<notin> set y"
  shows "sanitizeSessionFilename k = y \<longleftrightarrow> TrimSpace k = y"
proof
  assume "sanitizeSessionFilename k = y"
  then have "ReplaceAll_colon (TrimSpace k) = y" by (simp add: sanitizeSessionFilename_def)
  then show "TrimSpace k = y" using assms(2) by (rule ReplaceAll_colon_eqD)
next
  assume "TrimSpace k = y"
  with assms(1) show "sanitizeSessionFilename k = y"
    by (simp add: sanitizeSessionFilename_def ReplaceAll_colon_id)
qed

lemma Save_invalid:
  "storage s \<noteq> [] \<Longrightarrow> invalidFilename (sanitizeSessionFilename key) \<Longrightarrow>
   Save w (Some s) key = (Some ErrInvalid, w\<lparr>files := files w, saves := Suc (saves w)\<rparr>)"
  by (simp add: Save_def Save_run_def)

lemma AddMessage_invalid:
  assumes "storage s \<noteq> []" and "invalidFilename (sanitizeSessionFilename (storeKey k))"
  shows "fst (AddMessage w (Some s) k msg) = Some ErrInvalid"
    and "files (snd (snd (AddMessage w (Some s) k msg))) = files w"
  using assms
  by (simp_all add: AddMessage_def storeKey_def Let_def split_def time_Now_def Save_invalid
      split: option.splits)

lemma separator_invalid:
  assumes "CHR ''/'' \<in> set k \<or> CHR 0x5C \<in> set k \<or> TrimSpace k = ''.'' \<or> TrimSpace k = ''..''"
  shows "invalidFilename (sanitizeSessionFilename (storeKey k))"
proof -
  have dots: ?thesis if d: "TrimSpace k = ''.'' \<or> TrimSpace k = ''..''"
  proof -
    from d have "storeKey k = ''.'' \<or> storeKey k = ''..''" by (auto simp: storeKey_def)
    then have "TrimSpace (storeKey k) = ''.'' \<or> TrimSpace (storeKey k) = ''..''"
      by (simp add: TrimSpace_storeKey)
    then have "sanitizeSessionFilename (storeKey k) = ''.'' \<or> sanitizeSessionFilename (storeKey k) = ''..''"
      by (simp add: sanitize_eq_plain)
    then show ?thesis by (auto simp: invalidFilename_iff)
  qed
  have sep: "c \<in> set k \<Longrightarrow> c = CHR ''/'' \<or> c = CHR 0x5C \<Longrightarrow> c \<in> set (sanitizeSessionFilename (storeKey k))" for c
  proof -
    assume c: "c \<in> set k" "c = CHR ''/'' \<or> c = CHR 0x5C"
    then have ns: "\<forall>w \<in> set spaceRunes. c \<notin> set w" using slash_no_space by auto
    with c(1) have "c \<in> set (TrimSpace k)" by (rule TrimSpace_keeps)
    then have "c \<in> set (storeKey k)" by (auto simp: storeKey_def Let_def)
    then have "c \<in> set (TrimSpace (storeKey k))" by (simp add: TrimSpace_storeKey)
    with c(2) show ?thesis by (auto simp: sanitize_set)
  qed
  from assms show ?thesis
    using dots sep by (auto simp: invalidFilename_iff)
qed

lemma plain_key_valid:
  assumes "CHR ''/'' \<notin> set k" "CHR 0x5C \<notin> set k" "TrimSpace k \<noteq> ''.''" "TrimSpace k \<noteq> ''..''"
  shows "\<not> invalidFilename (sanitizeSessionFilename (storeKey k))"
proof -
  have sub: "set (storeKey k) \<subseteq> insert CHR ''g'' (insert CHR ''l'' (insert CHR ''o'' (insert CHR ''b'' (insert CHR ''a'' (set k)))))"
    using TrimSpace_subset [of k] by (auto simp: storeKey_def Let_def)
  have ne: "storeKey k \<noteq> []" "storeKey k \<noteq> ''.''" "storeKey k \<noteq> ''..''"
    using assms(3,4) by (auto simp: storeKey_def Let_def)
  from sub assms(1,2) have "CHR ''/'' \<notin> set (storeKey k)" "CHR 0x5C \<notin> set (storeKey k)" by auto
  with ne show ?thesis
    by (simp add: invalidFilename_iff sanitize_eq_plain sanitize_set TrimSpace_storeKey)
qed

text \<open>
  Claim C10: a blank key (empty, or white space only) is the key \<open>global\<close>: \<open>AddMessage\<close>
  does with it what it does with \<open>global\<close>, the message is appended to the session
  \<open>global\<close>, the keys of the store are those before and \<open>global\<close>, and \<open>History\<close> of a
  blank key is \<open>History\<close> of \<open>global\<close>.
\<close>

theorem blank_key_is_global:
  assumes "blank sessionKey"
  shows "AddMessage w (Some s) sessionKey msg = AddMessage w (Some s) ''global'' msg \<and>
         History (fst (snd (AddMessage w (Some s) sessionKey msg))) ''global'' =
           History (Some s) ''global'' @ [msg] \<and>
         (\<forall>s'. fst (snd (AddMessage w (Some s) sessionKey msg)) = Some s' \<longrightarrow>
            Mapping.keys (SessionStore.sessions s') =
              insert ''global'' (Mapping.keys (SessionStore.sessions s))) \<and>
         History so sessionKey = History so ''global''"
proof -
  from assms have k: "storeKey sessionKey = ''global''" by (rule storeKey_blank)
  then have e: "storeKey sessionKey = storeKey ''global''" by (simp add: storeKey_global)
  have 1: "AddMessage w (Some s) sessionKey msg = AddMessage w (Some s) ''global'' msg"
    using e by (rule AddMessage_storeKey)
  have 2: "History (fst (snd (AddMessage w (Some s) sessionKey msg))) ''global'' =
           History (Some s) ''global'' @ [msg]"
    using e by (simp add: History_AddMessage)
  have 3: "\<forall>s'. fst (snd (AddMessage w (Some s) sessionKey msg)) = Some s' \<longrightarrow>
            Mapping.keys (SessionStore.sessions s') =
              insert ''global'' (Mapping.keys (SessionStore.sessions s))"
    using k by (auto dest: keys_AddMessage)
  have 4: "History so sessionKey = History so ''global''"
  proof (cases so)
    case None
    then show ?thesis by (simp add: History_def)
  next
    case (Some t)
    then show ?thesis using e by (simp add: History_storeKey)
  qed
  from 1 2 3 4 show ?thesis by blast
qed

theorem blank_key_is_global_witness:
  "blank ''  '' \<and>
   AddMessage world0 (Some store0) ''  '' msg0 = AddMessage world0 (Some store0) ''global'' msg0 \<and>
   History (fst (snd (AddMessage world0 (Some store0) ''  '' msg0))) ''global'' = [msg0] \<and>
   History (Some store0) ''  '' = History (Some store0) ''global''"
proof -
  have "TrimSpace ''  '' = []" by code_simp
  then have b: "blank ''  ''" by (simp add: TrimSpace_blank_iff)
  have h: "History (Some store0) ''global'' = []"
    by (simp add: History_storeKey store0_def)
  note t = blank_key_is_global [OF b, of world0 store0 msg0 "Some store0"]
  from t have c1: "AddMessage world0 (Some store0) ''  '' msg0 = AddMessage world0 (Some store0) ''global'' msg0"
    by (rule conjunct1)
  from t have "History (fst (snd (AddMessage world0 (Some store0) ''  '' msg0))) ''global'' =
      History (Some store0) ''global'' @ [msg0]"
    by blast
  with h have c2: "History (fst (snd (AddMessage world0 (Some store0) ''  '' msg0))) ''global'' = [msg0]"
    by simp
  from t have c4: "History (Some store0) ''  '' = History (Some store0) ''global''"
    by blast
  from b c1 c2 c4 show ?thesis by blast
qed

lemma AddMessage_sessions:
  "\<exists>s' session. fst (snd (AddMessage w (Some s) k msg)) = Some s' \<and>
     storage s' = storage s \<and>
     SessionStore.sessions s' = Mapping.update (storeKey k) session (SessionStore.sessions s) \<and>
     Messages session = History (Some s) k @ [msg]"
proof (cases "Mapping.lookup (SessionStore.sessions s) (storeKey k)")
  case None
  let ?session = "\<lparr>Key = storeKey k, Messages = [msg], Created = nows w (ticks w),
                   Updated = nows w (Suc (Suc (ticks w)))\<rparr>"
  let ?s' = "s\<lparr>SessionStore.sessions := Mapping.update (storeKey k) ?session (SessionStore.sessions s)\<rparr>"
  from None have a: "fst (snd (AddMessage w (Some s) k msg)) = Some ?s'"
    by (simp add: AddMessage_def storeKey_def Let_def split_def time_Now_def)
  have b: "storage ?s' = storage s \<and>
     SessionStore.sessions ?s' = Mapping.update (storeKey k) ?session (SessionStore.sessions s)"
    by simp
  from None have c: "Messages ?session = History (Some s) k @ [msg]"
    by (simp add: History_storeKey)
  from a b c show ?thesis by blast
next
  case (Some old)
  let ?session = "old\<lparr>Messages := Messages old @ [msg], Updated := nows w (ticks w)\<rparr>"
  let ?s' = "s\<lparr>SessionStore.sessions := Mapping.update (storeKey k) ?session (SessionStore.sessions s)\<rparr>"
  from Some have a: "fst (snd (AddMessage w (Some s) k msg)) = Some ?s'"
    by (simp add: AddMessage_def storeKey_def Let_def split_def time_Now_def)
  have b: "storage ?s' = storage s \<and>
     SessionStore.sessions ?s' = Mapping.update (storeKey k) ?session (SessionStore.sessions s)"
    by simp
  from Some have c: "Messages ?session = History (Some s) k @ [msg]"
    by (simp add: History_storeKey)
  from a b c show ?thesis by blast
qed

lemma in_keys_lookup: "k \<in> Mapping.keys m \<longleftrightarrow> Mapping.lookup m k \<noteq> None"
  by (auto simp: keys_dom_lookup)

lemma SessionCount_AddMessage:
  assumes "finite (Mapping.keys (SessionStore.sessions s))"
  shows "SessionCount (fst (snd (AddMessage w (Some s) k msg))) =
     (if storeKey k \<in> Mapping.keys (SessionStore.sessions s) then SessionCount (Some s)
      else Suc (SessionCount (Some s)))"
proof -
  from AddMessage_sessions [of w s k msg] obtain s' session where
    s': "fst (snd (AddMessage w (Some s) k msg)) = Some s'"
        "SessionStore.sessions s' = Mapping.update (storeKey k) session (SessionStore.sessions s)"
    by blast
  with assms show ?thesis by (simp add: SessionCount_def size_update)
qed

lemma TotalMessageCount_AddMessage:
  assumes fin: "finite (Mapping.keys (SessionStore.sessions s))"
  shows "TotalMessageCount (fst (snd (AddMessage w (Some s) k msg))) = Suc (TotalMessageCount (Some s))"
proof -
  let ?m = "SessionStore.sessions s"
  let ?K = "Mapping.keys ?m"
  let ?key = "storeKey k"
  from AddMessage_sessions [of w s k msg] obtain s' session where
    s': "fst (snd (AddMessage w (Some s) k msg)) = Some s'"
        "SessionStore.sessions s' = Mapping.update ?key session ?m"
        "Messages session = History (Some s) k @ [msg]"
    by blast
  let ?g = "\<lambda>x. length (Messages (the (Mapping.lookup ?m x)))"
  let ?g' = "\<lambda>x. length (Messages (the (Mapping.lookup (Mapping.update ?key session ?m) x)))"
  have new: "?g' ?key = Suc (if ?key \<in> ?K then ?g ?key else 0)"
    by (auto simp: s'(3) History_storeKey in_keys_lookup split: option.splits)
  have rest: "sum ?g' (?K - {?key}) = sum ?g (?K - {?key})"
    by (rule sum.cong) auto
  have after: "sum ?g' (insert ?key ?K) = ?g' ?key + sum ?g' (?K - {?key})"
    using fin by (rule sum.insert_remove)
  have before: "sum ?g ?K = (if ?key \<in> ?K then ?g ?key else 0) + sum ?g (?K - {?key})"
  proof (cases "?key \<in> ?K")
    case True
    with fin show ?thesis by (simp add: sum.remove)
  next
    case False
    then show ?thesis by simp
  qed
  have "TotalMessageCount (Some s') = sum ?g' (insert ?key ?K)"
    by (simp add: TotalMessageCount_def s'(2))
  also have "\<dots> = Suc (sum ?g ?K)" using after new rest before by simp
  finally show ?thesis by (simp add: s'(1) TotalMessageCount_def)
qed

lemma sanitize_underscores:
  "sanitizeSessionFilename (storeKey k) =
     map (\<lambda>c. if c = CHR '':'' then CHR ''_'' else c) (storeKey k)"
  by (simp add: sanitizeSessionFilename_def ReplaceAll_colon_def TrimSpace_storeKey)

lemma AddMessage_memory_only:
  "storage s = [] \<Longrightarrow>
   fst (AddMessage w (Some s) k msg) = None \<and> files (snd (snd (AddMessage w (Some s) k msg))) = files w"
  by (simp add: AddMessage_def Let_def split_def time_Now_def Save_def Save_run_def
      split: option.splits)

text \<open>
  Claim C8, as stated, fails: \<open>AddMessage\<close> appends to the session in memory before
  \<open>Save\<close> checks the file name, so a key with a path separator is refused with an error
  and yet the session is created and the counts grow. Without a storage root the key is
  not checked at all: the same call returns no error.
\<close>

theorem AddMessage_invalid_key_counterexample:
  "fst (AddMessage world0 (Some store0) ''a/b'' msg0) = Some ErrInvalid \<and>
   History (Some store0) ''a/b'' = [] \<and>
   History (fst (snd (AddMessage world0 (Some store0) ''a/b'' msg0))) ''a/b'' = [msg0] \<and>
   SessionCount (Some store0) = 0 \<and>
   SessionCount (fst (snd (AddMessage world0 (Some store0) ''a/b'' msg0))) = 1 \<and>
   TotalMessageCount (Some store0) = 0 \<and>
   TotalMessageCount (fst (snd (AddMessage world0 (Some store0) ''a/b'' msg0))) = 1 \<and>
   fst (AddMessage world0 (Some \<lparr>storage = [], SessionStore.sessions = Mapping.empty\<rparr>) ''a/b'' msg0) =
     None \<and>
   History (fst (snd (AddMessage world0
        (Some \<lparr>storage = [], SessionStore.sessions = Mapping.empty\<rparr>) ''a/b'' msg0))) ''a/b'' = [msg0]"
  by code_simp

text \<open>
  Claim C8, amended: with a storage root, \<open>AddMessage\<close> with a key that holds a path
  separator (slash or backslash), or that is \<open>.\<close> or \<open>..\<close> once trimmed, returns the error
  \<open>ErrInvalid\<close> and writes no file (\<open>Save\<close> refuses the name before it touches the
  directory), whereas the message has been appended to the session in memory: the
  history of the key ends with it, the key is among the keys of the store, and (the map
  being finite) \<open>SessionCount\<close> is one more when the key is new and \<open>TotalMessageCount\<close>
  is one more. A key without a separator, other than \<open>.\<close> and \<open>..\<close>, passes the check of
  the name, and the name has no colon: it is the key with an underscore for each colon.
  Without a storage root no key is refused: \<open>AddMessage\<close> returns no error, writes
  nothing and appends the message.
\<close>

theorem AddMessage_invalid_key:
  assumes "storage s \<noteq> []"
    and "CHR ''/'' \<in> set sessionKey \<or> CHR 0x5C \<in> set sessionKey \<or>
         TrimSpace sessionKey = ''.'' \<or> TrimSpace sessionKey = ''..''"
  shows "fst (AddMessage w (Some s) sessionKey msg) = Some ErrInvalid \<and>
         files (snd (snd (AddMessage w (Some s) sessionKey msg))) = files w \<and>
         Save_run w (Some s) (storeKey sessionKey) = (Some ErrInvalid, [files w]) \<and>
         History (fst (snd (AddMessage w (Some s) sessionKey msg))) sessionKey =
           History (Some s) sessionKey @ [msg] \<and>
         (\<forall>k. CHR ''/'' \<notin> set k \<and> CHR 0x5C \<notin> set k \<and> TrimSpace k \<noteq> ''.'' \<and> TrimSpace k \<noteq> ''..'' \<longrightarrow>
            \<not> invalidFilename (sanitizeSessionFilename (storeKey k)) \<and>
            CHR '':'' \<notin> set (sanitizeSessionFilename (storeKey k))) \<and>
         (\<forall>s'. fst (snd (AddMessage w (Some s) sessionKey msg)) = Some s' \<longrightarrow>
            Mapping.keys (SessionStore.sessions s') =
              insert (storeKey sessionKey) (Mapping.keys (SessionStore.sessions s))) \<and>
         (finite (Mapping.keys (SessionStore.sessions s)) \<longrightarrow>
            SessionCount (fst (snd (AddMessage w (Some s) sessionKey msg))) =
              (if storeKey sessionKey \<in> Mapping.keys (SessionStore.sessions s)
               then SessionCount (Some s) else Suc (SessionCount (Some s))) \<and>
            TotalMessageCount (fst (snd (AddMessage w (Some s) sessionKey msg))) =
              Suc (TotalMessageCount (Some s))) \<and>
         (\<forall>k. sanitizeSessionFilename (storeKey k) =
               map (\<lambda>c. if c = CHR '':'' then CHR ''_'' else c) (storeKey k)) \<and>
         (\<forall>s0. storage s0 = [] \<longrightarrow>
            fst (AddMessage w (Some s0) sessionKey msg) = None \<and>
            files (snd (snd (AddMessage w (Some s0) sessionKey msg))) = files w \<and>
            History (fst (snd (AddMessage w (Some s0) sessionKey msg))) sessionKey =
              History (Some s0) sessionKey @ [msg])"
proof -
  from assms(2) have inv: "invalidFilename (sanitizeSessionFilename (storeKey sessionKey))"
    by (rule separator_invalid)
  have 1: "fst (AddMessage w (Some s) sessionKey msg) = Some ErrInvalid"
    using assms(1) inv by (rule AddMessage_invalid(1))
  have 2: "files (snd (snd (AddMessage w (Some s) sessionKey msg))) = files w"
    using assms(1) inv by (rule AddMessage_invalid(2))
  have 3: "Save_run w (Some s) (storeKey sessionKey) = (Some ErrInvalid, [files w])"
    using assms(1) inv by (simp add: Save_run_def)
  have 4: "History (fst (snd (AddMessage w (Some s) sessionKey msg))) sessionKey =
           History (Some s) sessionKey @ [msg]"
    by (simp add: History_AddMessage)
  have 5: "\<forall>k. CHR ''/'' \<notin> set k \<and> CHR 0x5C \<notin> set k \<and> TrimSpace k \<noteq> ''.'' \<and> TrimSpace k \<noteq> ''..'' \<longrightarrow>
            \<not> invalidFilename (sanitizeSessionFilename (storeKey k)) \<and>
            CHR '':'' \<notin> set (sanitizeSessionFilename (storeKey k))"
    by (simp add: plain_key_valid sanitize_no_colon)
  have 6: "\<forall>s'. fst (snd (AddMessage w (Some s) sessionKey msg)) = Some s' \<longrightarrow>
            Mapping.keys (SessionStore.sessions s') =
              insert (storeKey sessionKey) (Mapping.keys (SessionStore.sessions s))"
    using keys_AddMessage by blast
  have 7: "finite (Mapping.keys (SessionStore.sessions s)) \<longrightarrow>
            SessionCount (fst (snd (AddMessage w (Some s) sessionKey msg))) =
              (if storeKey sessionKey \<in> Mapping.keys (SessionStore.sessions s)
               then SessionCount (Some s) else Suc (SessionCount (Some s))) \<and>
            TotalMessageCount (fst (snd (AddMessage w (Some s) sessionKey msg))) =
              Suc (TotalMessageCount (Some s))"
    using SessionCount_AddMessage TotalMessageCount_AddMessage by blast
  have 8: "\<forall>k. sanitizeSessionFilename (storeKey k) =
               map (\<lambda>c. if c = CHR '':'' then CHR ''_'' else c) (storeKey k)"
    using sanitize_underscores by blast
  have 9: "\<forall>s0. storage s0 = [] \<longrightarrow>
            fst (AddMessage w (Some s0) sessionKey msg) = None \<and>
            files (snd (snd (AddMessage w (Some s0) sessionKey msg))) = files w \<and>
            History (fst (snd (AddMessage w (Some s0) sessionKey msg))) sessionKey =
              History (Some s0) sessionKey @ [msg]"
    by (simp add: AddMessage_memory_only History_AddMessage)
  show ?thesis
    by (intro conjI) (rule 1 2 3 4 5 6 7 8 9)+
qed

theorem AddMessage_invalid_key_witness:
  "storage store0 \<noteq> [] \<and> CHR ''/'' \<in> set ''../x'' \<and>
   fst (AddMessage world0 (Some store0) ''../x'' msg0) = Some ErrInvalid \<and>
   files (snd (snd (AddMessage world0 (Some store0) ''../x'' msg0))) = files world0 \<and>
   History (fst (snd (AddMessage world0 (Some store0) ''../x'' msg0))) ''../x'' = [msg0] \<and>
   \<not> invalidFilename (sanitizeSessionFilename (storeKey ''telegram:42'')) \<and>
   sanitizeSessionFilename (storeKey ''telegram:42'') = ''telegram_42'' \<and>
   SessionCount (fst (snd (AddMessage world0 (Some store0) ''../x'' msg0))) = 1 \<and>
   TotalMessageCount (fst (snd (AddMessage world0 (Some store0) ''../x'' msg0))) = 1"
proof -
  let ?after = "fst (snd (AddMessage world0 (Some store0) ''../x'' msg0))"
  have a: "storage store0 \<noteq> []" by (simp add: store0_def)
  have b: "CHR ''/'' \<in> set ''../x''" by simp
  then have b': "CHR ''/'' \<in> set ''../x'' \<or> CHR 0x5C \<in> set ''../x'' \<or>
         TrimSpace ''../x'' = ''.'' \<or> TrimSpace ''../x'' = ''..''" by (rule disjI1)
  have h: "History (Some store0) ''../x'' = []"
    by (simp add: History_storeKey store0_def)
  have t: "TrimSpace ''telegram:42'' = ''telegram:42''" by code_simp
  have sk: "storeKey ''telegram:42'' = ''telegram:42''" by code_simp
  have fin: "finite (Mapping.keys (SessionStore.sessions store0))" by (simp add: store0_def)
  have nk: "storeKey ''../x'' \<notin> Mapping.keys (SessionStore.sessions store0)"
    by (simp add: store0_def)
  have z: "SessionCount (Some store0) = 0" "TotalMessageCount (Some store0) = 0"
    by (simp_all add: SessionCount_def TotalMessageCount_def store0_def)
  note th = AddMessage_invalid_key [OF a b', of world0 msg0]
  from th have c1: "fst (AddMessage world0 (Some store0) ''../x'' msg0) = Some ErrInvalid"
    by (rule conjunct1)
  from th have c2: "files (snd (snd (AddMessage world0 (Some store0) ''../x'' msg0))) = files world0"
    by blast
  from th have "History ?after ''../x'' = History (Some store0) ''../x'' @ [msg0]"
    by blast
  with h have c3: "History ?after ''../x'' = [msg0]"
    by simp
  from th have "CHR ''/'' \<notin> set ''telegram:42'' \<and> CHR 0x5C \<notin> set ''telegram:42'' \<and>
      TrimSpace ''telegram:42'' \<noteq> ''.'' \<and> TrimSpace ''telegram:42'' \<noteq> ''..'' \<longrightarrow>
      \<not> invalidFilename (sanitizeSessionFilename (storeKey ''telegram:42''))"
    by blast
  then have c4: "\<not> invalidFilename (sanitizeSessionFilename (storeKey ''telegram:42''))"
    by (simp add: t)
  from th have "sanitizeSessionFilename (storeKey ''telegram:42'') =
      map (\<lambda>c. if c = CHR '':'' then CHR ''_'' else c) (storeKey ''telegram:42'')"
    by blast
  then have n: "sanitizeSessionFilename (storeKey ''telegram:42'') = ''telegram_42''"
    by (simp add: sk)
  from th have "finite (Mapping.keys (SessionStore.sessions store0)) \<longrightarrow>
      SessionCount ?after =
        (if storeKey ''../x'' \<in> Mapping.keys (SessionStore.sessions store0)
         then SessionCount (Some store0) else Suc (SessionCount (Some store0))) \<and>
      TotalMessageCount ?after = Suc (TotalMessageCount (Some store0))"
    by blast
  with fin nk z have c5: "SessionCount ?after = 1" and c6: "TotalMessageCount ?after = 1"
    by simp_all
  from a b c1 c2 c3 c4 n c5 c6 show ?thesis by blast
qed

section \<open>Saving a session\<close>

lemma tmp_ne_target: "tmpName r \<noteq> f @ ''.json''"
proof
  assume "tmpName r = f @ ''.json''"
  then have "last (tmpName r) = last (f @ ''.json'')" by simp
  then show False by (simp add: tmpName_def)
qed

lemma writing_other:
  "f \<in> set (writing fs tmp payload n) \<Longrightarrow> name \<noteq> tmp \<Longrightarrow> f name = fs name"
  by (auto simp: writing_def)

lemma writing_nonempty: "writing fs tmp payload n \<noteq> []"
  by (simp add: writing_def)

lemma cleanup_other: "name \<noteq> tmp \<Longrightarrow> cleanup ob tmp fs name = fs name"
  by (simp add: cleanup_def)

lemma write_rename_states:
  "snd (write_rename ob fs target payload) \<noteq> [] \<and> hd (snd (write_rename ob fs target payload)) = fs"
  by (simp add: write_rename_def Let_def split: fault.splits)

lemma write_rename_before:
  assumes "tmpName (tmp_rand ob) \<noteq> target"
    and "f \<in> set (butlast (snd (write_rename ob fs target payload)))"
  shows "f target = fs target"
  using assms
  by (auto simp: write_rename_def Let_def butlast_append writing_nonempty
      split: fault.splits if_splits dest: writing_other [where name = target])

lemma write_rename_failed:
  assumes "tmpName (tmp_rand ob) \<noteq> target"
    and "fst (write_rename ob fs target payload) \<noteq> None"
  shows "last (snd (write_rename ob fs target payload)) target = fs target"
  using assms
  by (auto simp: write_rename_def Let_def cleanup_other split: fault.splits if_splits)

lemma write_rename_done:
  assumes "fst (write_rename ob fs target payload) = None"
  shows "last (snd (write_rename ob fs target payload)) target = Some payload"
  using assms
  by (auto simp: write_rename_def Let_def split: fault.splits if_splits)

lemma write_rename_others:
  assumes "f \<in> set (snd (write_rename ob fs target payload))"
    and "name \<noteq> target" and "name \<noteq> tmpName (tmp_rand ob)"
  shows "f name = fs name"
  using assms
  by (auto simp: write_rename_def Let_def cleanup_other split: fault.splits if_splits
      dest: writing_other [where name = name])

lemma write_rename_tmp_removed:
  assumes "fs (tmpName (tmp_rand ob)) = None" and "\<not> remove_fails ob"
    and "tmpName (tmp_rand ob) \<noteq> target"
  shows "last (snd (write_rename ob fs target payload)) (tmpName (tmp_rand ob)) = None"
  using assms
  by (auto simp: write_rename_def Let_def cleanup_def split: fault.splits if_splits)

lemma snapshot_eq:
  "\<lparr>Key = Key session, Messages = Messages session, Created = Created session,
    Updated = Updated session\<rparr> = (session :: Session)"
  by simp

lemma Save_run_cases:
  "Save_run w so key = (None, [files w]) \<or>
   Save_run w so key = (Some ErrInvalid, [files w]) \<or>
   (\<exists>e. Save_run w so key = (Some e, [files w])) \<or>
   (\<exists>s session payload.
      so = Some s \<and> storage s \<noteq> [] \<and> \<not> invalidFilename (sanitizeSessionFilename key) \<and>
      Mapping.lookup (SessionStore.sessions s) key = Some session \<and>
      marshal w session = Inr payload \<and>
      Save_run w so key =
        write_rename (os_plan w (saves w)) (files w) (sanitizeSessionFilename key @ ''.json'') payload)"
  by (auto simp: Save_run_def Let_def snapshot_eq split: option.splits sum.splits)

lemma Save_run_reaches:
  assumes "fst (Save_run w (Some s) key) = None" "storage s \<noteq> []"
    "Mapping.lookup (SessionStore.sessions s) key = Some session"
  shows "\<exists>payload. marshal w session = Inr payload \<and> os_plan w (saves w) = os_plan w (saves w) \<and>
     fst (write_rename (os_plan w (saves w)) (files w) (sanitizeSessionFilename key @ ''.json'') payload) = None \<and>
     Save_run w (Some s) key =
        write_rename (os_plan w (saves w)) (files w) (sanitizeSessionFilename key @ ''.json'') payload"
  using assms
  by (auto simp: Save_run_def Let_def snapshot_eq split: option.splits sum.splits if_splits)

lemma write_rename_success_shape:
  assumes "fst (write_rename ob fs target payload) = None"
  shows "fs (tmpName (tmp_rand ob)) = None \<and>
         butlast (snd (write_rename ob fs target payload)) =
           fs # writing fs (tmpName (tmp_rand ob)) payload (length payload)"
  using assms
  by (auto simp: write_rename_def Let_def butlast_append split: fault.splits if_splits)

lemma last_writing: "last (writing fs tmp payload (length payload)) = fs(tmp \<mapsto> payload)"
  by (simp add: writing_def last_map)

lemma Save_run_states:
  "snd (Save_run w so key) \<noteq> [] \<and> hd (snd (Save_run w so key)) = files w"
  using Save_run_cases [of w so key] by (auto simp: write_rename_states)

lemma Save_run_before:
  assumes "f \<in> set (butlast (snd (Save_run w so key)))"
  shows "f (sanitizeSessionFilename key @ ''.json'') = files w (sanitizeSessionFilename key @ ''.json'')"
  using Save_run_cases [of w so key] assms
  by (auto dest: write_rename_before [OF tmp_ne_target])

lemma Save_run_failed:
  assumes "fst (Save_run w so key) \<noteq> None"
  shows "last (snd (Save_run w so key)) (sanitizeSessionFilename key @ ''.json'') =
         files w (sanitizeSessionFilename key @ ''.json'')"
  using Save_run_cases [of w so key] assms
  by (auto simp: write_rename_failed [OF tmp_ne_target])

lemma Save_run_done:
  assumes "fst (Save_run w (Some s) key) = None" "storage s \<noteq> []"
    "Mapping.lookup (SessionStore.sessions s) key = Some session"
  shows "\<exists>payload tmp. marshal w session = Inr payload \<and>
           last (snd (Save_run w (Some s) key)) (sanitizeSessionFilename key @ ''.json'') = Some payload \<and>
           files w tmp = None \<and>
           last (butlast (snd (Save_run w (Some s) key))) tmp = Some payload \<and>
           last (butlast (snd (Save_run w (Some s) key))) (sanitizeSessionFilename key @ ''.json'') =
             files w (sanitizeSessionFilename key @ ''.json'')"
proof -
  let ?target = "sanitizeSessionFilename key @ ''.json''"
  let ?ob = "os_plan w (saves w)"
  from Save_run_reaches [OF assms] obtain payload where
    p: "marshal w session = Inr payload"
       "fst (write_rename ?ob (files w) ?target payload) = None"
       "Save_run w (Some s) key = write_rename ?ob (files w) ?target payload"
    by blast
  from write_rename_success_shape [OF p(2)] have
    fresh: "files w (tmpName (tmp_rand ?ob)) = None" and
    bl: "butlast (snd (write_rename ?ob (files w) ?target payload)) =
           files w # writing (files w) (tmpName (tmp_rand ?ob)) payload (length payload)"
    by simp_all
  from bl have lb: "last (butlast (snd (Save_run w (Some s) key))) =
      (files w)(tmpName (tmp_rand ?ob) \<mapsto> payload)"
    by (simp add: p(3) writing_nonempty last_writing)
  have ne: "tmpName (tmp_rand ?ob) \<noteq> ?target" by (rule tmp_ne_target)
  have "last (snd (Save_run w (Some s) key)) ?target = Some payload"
    using write_rename_done [OF p(2)] by (simp add: p(3))
  moreover have "last (butlast (snd (Save_run w (Some s) key))) (tmpName (tmp_rand ?ob)) = Some payload"
    by (simp add: lb)
  moreover have "last (butlast (snd (Save_run w (Some s) key))) ?target = files w ?target"
    using ne by (simp add: lb)
  ultimately show ?thesis using p(1) fresh by blast
qed

lemma Save_files: "files (snd (Save w so key)) = last (snd (Save_run w so key))"
  by (simp add: Save_def split_def Let_def)

lemma Save_fst: "fst (Save w so key) = fst (Save_run w so key)"
  by (simp add: Save_def split_def Let_def)

lemma write_rename_clean:
  assumes "fault ob = NoFault" and "fs (tmpName (tmp_rand ob)) = None"
  shows "write_rename ob fs target payload =
           (None, fs # writing fs (tmpName (tmp_rand ob)) payload (length payload) @
                  [fs(target \<mapsto> payload)])"
proof -
  let ?tmp = "tmpName (tmp_rand ob)"
  from assms(2) have "(fs(?tmp \<mapsto> payload))(?tmp := None) = fs" by (simp add: fun_upd_idem)
  with assms show ?thesis by (simp add: write_rename_def Let_def)
qed

lemma write_rename_err:
  "fst (write_rename ob fs target payload) = None \<longleftrightarrow>
     fault ob = NoFault \<and> fs (tmpName (tmp_rand ob)) = None"
  by (auto simp: write_rename_def Let_def split: fault.splits)

lemma Save_run_write:
  assumes "storage s \<noteq> []" "\<not> invalidFilename (sanitizeSessionFilename key)"
    "Mapping.lookup (SessionStore.sessions s) key = Some session"
    "marshal w session = Inr payload"
  shows "Save_run w (Some s) key =
     write_rename (os_plan w (saves w)) (files w) (sanitizeSessionFilename key @ ''.json'') payload"
  using assms by (simp add: Save_run_def Let_def snapshot_eq)

lemma Save_run_nothing:
  assumes "so = None \<or> (\<exists>s. so = Some s \<and>
      (storage s = [] \<or>
       (\<not> invalidFilename (sanitizeSessionFilename key) \<and>
        Mapping.lookup (SessionStore.sessions s) key = None)))"
  shows "Save_run w so key = (None, [files w])"
  using assms by (auto simp: Save_run_def Let_def)

lemma Save_run_refused:
  assumes "storage s \<noteq> []" "invalidFilename (sanitizeSessionFilename key)"
  shows "Save_run w (Some s) key = (Some ErrInvalid, [files w])"
  using assms by (simp add: Save_run_def Let_def)

lemma Save_run_unencoded:
  assumes "storage s \<noteq> []" "\<not> invalidFilename (sanitizeSessionFilename key)"
    "Mapping.lookup (SessionStore.sessions s) key = Some session"
    "marshal w session = Inl e"
  shows "Save_run w (Some s) key = (Some e, [files w])"
  using assms by (simp add: Save_run_def Let_def snapshot_eq)

lemma Save_run_None_absent:
  assumes "fst (Save_run w so key) = None"
    and "\<not> (\<exists>s session. so = Some s \<and> storage s \<noteq> [] \<and>
            Mapping.lookup (SessionStore.sessions s) key = Some session)"
  shows "snd (Save_run w so key) = [files w]"
  using assms by (auto simp: Save_run_def Let_def split: option.splits if_splits)

lemma AddMessage_Save_full:
  "\<exists>w2 s' session. files w2 = files w \<and> marshal w2 = marshal w \<and>
     os_plan w2 = os_plan w \<and> saves w2 = saves w \<and> storage s' = storage s \<and>
     Mapping.lookup (SessionStore.sessions s') (storeKey k) = Some session \<and>
     Key session = (case Mapping.lookup (SessionStore.sessions s) (storeKey k) of
                      None \<Rightarrow> storeKey k | Some old \<Rightarrow> Key old) \<and>
     Messages session = History (Some s) k @ [msg] \<and>
     AddMessage w (Some s) k msg =
       (fst (Save w2 (Some s') (storeKey k)), Some s', snd (Save w2 (Some s') (storeKey k)))"
proof (cases "Mapping.lookup (SessionStore.sessions s) (storeKey k)")
  case None
  let ?w2 = "w\<lparr>ticks := Suc (Suc (Suc (ticks w)))\<rparr>"
  let ?session = "\<lparr>Key = storeKey k, Messages = [msg], Created = nows w (ticks w),
                   Updated = nows w (Suc (Suc (ticks w)))\<rparr>"
  let ?s' = "s\<lparr>SessionStore.sessions := Mapping.update (storeKey k) ?session (SessionStore.sessions s)\<rparr>"
  have a: "files ?w2 = files w \<and> marshal ?w2 = marshal w \<and> os_plan ?w2 = os_plan w \<and>
     saves ?w2 = saves w \<and> storage ?s' = storage s" by simp
  have b: "Mapping.lookup (SessionStore.sessions ?s') (storeKey k) = Some ?session" by simp
  from None have c: "Key ?session = (case Mapping.lookup (SessionStore.sessions s) (storeKey k) of
                      None \<Rightarrow> storeKey k | Some old \<Rightarrow> Key old)" by simp
  from None have d: "Messages ?session = History (Some s) k @ [msg]"
    by (simp add: History_storeKey)
  from None have e: "AddMessage w (Some s) k msg =
       (fst (Save ?w2 (Some ?s') (storeKey k)), Some ?s', snd (Save ?w2 (Some ?s') (storeKey k)))"
    by (simp add: AddMessage_def storeKey_def Let_def split_def time_Now_def)
  from a b c d e show ?thesis by blast
next
  case (Some old)
  let ?w2 = "w\<lparr>ticks := Suc (ticks w)\<rparr>"
  let ?session = "old\<lparr>Messages := Messages old @ [msg], Updated := nows w (ticks w)\<rparr>"
  let ?s' = "s\<lparr>SessionStore.sessions := Mapping.update (storeKey k) ?session (SessionStore.sessions s)\<rparr>"
  have a: "files ?w2 = files w \<and> marshal ?w2 = marshal w \<and> os_plan ?w2 = os_plan w \<and>
     saves ?w2 = saves w \<and> storage ?s' = storage s" by simp
  have b: "Mapping.lookup (SessionStore.sessions ?s') (storeKey k) = Some ?session" by simp
  from Some have c: "Key ?session = (case Mapping.lookup (SessionStore.sessions s) (storeKey k) of
                      None \<Rightarrow> storeKey k | Some old \<Rightarrow> Key old)" by simp
  from Some have d: "Messages ?session = History (Some s) k @ [msg]"
    by (simp add: History_storeKey)
  from Some have e: "AddMessage w (Some s) k msg =
       (fst (Save ?w2 (Some ?s') (storeKey k)), Some ?s', snd (Save ?w2 (Some ?s') (storeKey k)))"
    by (simp add: AddMessage_def storeKey_def Let_def split_def time_Now_def)
  from a b c d e show ?thesis by blast
qed

text \<open>
  Claim C1: \<open>Save\<close> goes through a sequence of states of the storage directory, the
  first one the state before the call and the last one the state it leaves. In every
  state but the last the file of the key is what it was before the call. When \<open>Save\<close>
  returns an error the last state has it unchanged too. When \<open>Save\<close> succeeds for a
  session of a store with a storage root, the last state holds the whole encoded snapshot
  under the name of the key, and the state before it held that same payload, complete,
  in a temporary file that did not exist before, next to the old file of the key: the
  last step is the rename. So a call that fails or is killed at any step before the
  rename leaves the previous file, and the file is never a partial write.

  \<open>Save\<close> does write: for a store with a storage root, a key whose file name passes the
  check, a session under that key and a snapshot that encodes, \<open>Save\<close> returns no error
  exactly when no file operation fails and the temporary name is free, and then the
  states are the directory before, the temporary file growing to the whole payload, and
  the directory before with the payload under the name of the key, which is the state it
  leaves. \<open>Save\<close> returns without touching the directory, and without error, for a nil
  store, a store without storage root, and a key without session; with the error
  \<open>ErrInvalid\<close> for a name that fails the check; with the encoder's error when the
  snapshot does not encode.

  \<open>AddMessage\<close> touches the directory through one such \<open>Save\<close> only, started on the
  files as they were, for the session that now ends with the new message.
\<close>

theorem Save_atomic:
  assumes "Save_run w so sessionKey = (err, states)"
    and "target = sanitizeSessionFilename sessionKey @ ''.json''"
  shows "states \<noteq> [] \<and> hd states = files w \<and>
         fst (Save w so sessionKey) = err \<and>
         files (snd (Save w so sessionKey)) = last states \<and>
         (\<forall>f \<in> set (butlast states). f target = files w target) \<and>
         (err \<noteq> None \<longrightarrow> last states target = files w target) \<and>
         (\<forall>s session.
            err = None \<and> so = Some s \<and> storage s \<noteq> [] \<and>
            Mapping.lookup (SessionStore.sessions s) sessionKey = Some session \<longrightarrow>
            (\<exists>payload tmp.
               marshal w session = Inr payload \<and> last states target = Some payload \<and>
               files w tmp = None \<and> last (butlast states) tmp = Some payload \<and>
               last (butlast states) target = files w target)) \<and>
         (\<forall>s session payload.
            so = Some s \<and> storage s \<noteq> [] \<and>
            \<not> invalidFilename (sanitizeSessionFilename sessionKey) \<and>
            Mapping.lookup (SessionStore.sessions s) sessionKey = Some session \<and>
            marshal w session = Inr payload \<longrightarrow>
            (err = None \<longleftrightarrow>
               fault (os_plan w (saves w)) = NoFault \<and>
               files w (tmpName (tmp_rand (os_plan w (saves w)))) = None) \<and>
            (fault (os_plan w (saves w)) = NoFault \<and>
             files w (tmpName (tmp_rand (os_plan w (saves w)))) = None \<longrightarrow>
               err = None \<and>
               states =
                 files w #
                 writing (files w) (tmpName (tmp_rand (os_plan w (saves w)))) payload (length payload) @
                 [(files w)(target \<mapsto> payload)] \<and>
               last states = (files w)(target \<mapsto> payload))) \<and>
         (so = None \<or>
          (\<exists>s. so = Some s \<and>
             (storage s = [] \<or>
              (\<not> invalidFilename (sanitizeSessionFilename sessionKey) \<and>
               Mapping.lookup (SessionStore.sessions s) sessionKey = None))) \<longrightarrow>
            err = None \<and> states = [files w]) \<and>
         (err = None \<and>
          \<not> (\<exists>s session. so = Some s \<and> storage s \<noteq> [] \<and>
                Mapping.lookup (SessionStore.sessions s) sessionKey = Some session) \<longrightarrow>
            states = [files w]) \<and>
         (\<forall>s. so = Some s \<and> storage s \<noteq> [] \<and>
              invalidFilename (sanitizeSessionFilename sessionKey) \<longrightarrow>
            err = Some ErrInvalid \<and> states = [files w]) \<and>
         (\<forall>s session e.
            so = Some s \<and> storage s \<noteq> [] \<and>
            \<not> invalidFilename (sanitizeSessionFilename sessionKey) \<and>
            Mapping.lookup (SessionStore.sessions s) sessionKey = Some session \<and>
            marshal w session = Inl e \<longrightarrow>
            err = Some e \<and> states = [files w]) \<and>
         (\<forall>s k msg. \<exists>w2 s' session.
            files w2 = files w \<and> marshal w2 = marshal w \<and>
            os_plan w2 = os_plan w \<and> saves w2 = saves w \<and> storage s' = storage s \<and>
            Mapping.lookup (SessionStore.sessions s') (storeKey k) = Some session \<and>
            Key session = (case Mapping.lookup (SessionStore.sessions s) (storeKey k) of
                             None \<Rightarrow> storeKey k | Some old \<Rightarrow> Key old) \<and>
            Messages session = History (Some s) k @ [msg] \<and>
            AddMessage w (Some s) k msg =
              (fst (Save w2 (Some s') (storeKey k)), Some s', snd (Save w2 (Some s') (storeKey k))))"
proof -
  from assms(1) have e: "err = fst (Save_run w so sessionKey)"
    and st: "states = snd (Save_run w so sessionKey)" by simp_all
  let ?ob = "os_plan w (saves w)"
  let ?tmp = "tmpName (tmp_rand ?ob)"
  have 1: "states \<noteq> [] \<and> hd states = files w"
    unfolding st by (rule Save_run_states)
  have 2: "fst (Save w so sessionKey) = err" by (simp add: e Save_fst)
  have 3: "files (snd (Save w so sessionKey)) = last states" by (simp add: st Save_files)
  have 4: "\<forall>f \<in> set (butlast states). f target = files w target"
    unfolding st assms(2) using Save_run_before by blast
  have 5: "err \<noteq> None \<longrightarrow> last states target = files w target"
    unfolding st e assms(2) using Save_run_failed by blast
  have 6: "\<forall>s session.
            err = None \<and> so = Some s \<and> storage s \<noteq> [] \<and>
            Mapping.lookup (SessionStore.sessions s) sessionKey = Some session \<longrightarrow>
            (\<exists>payload tmp.
               marshal w session = Inr payload \<and> last states target = Some payload \<and>
               files w tmp = None \<and> last (butlast states) tmp = Some payload \<and>
               last (butlast states) target = files w target)"
    unfolding st e assms(2) using Save_run_done by blast
  have 7: "(err = None \<longleftrightarrow> fault ?ob = NoFault \<and> files w ?tmp = None) \<and>
           (fault ?ob = NoFault \<and> files w ?tmp = None \<longrightarrow>
              err = None \<and>
              states = files w # writing (files w) ?tmp payload (length payload) @
                       [(files w)(target \<mapsto> payload)] \<and>
              last states = (files w)(target \<mapsto> payload))"
    if c: "so = Some s \<and> storage s \<noteq> [] \<and>
            \<not> invalidFilename (sanitizeSessionFilename sessionKey) \<and>
            Mapping.lookup (SessionStore.sessions s) sessionKey = Some session \<and>
            marshal w session = Inr payload" for s session payload
  proof -
    from c have r: "Save_run w so sessionKey = write_rename ?ob (files w) target payload"
      by (simp add: Save_run_write assms(2))
    have a: "err = None \<longleftrightarrow> fault ?ob = NoFault \<and> files w ?tmp = None"
      by (simp add: e r write_rename_err)
    have b: "err = None \<and>
              states = files w # writing (files w) ?tmp payload (length payload) @
                       [(files w)(target \<mapsto> payload)] \<and>
              last states = (files w)(target \<mapsto> payload)"
      if f: "fault ?ob = NoFault \<and> files w ?tmp = None"
    proof -
      from f have "write_rename ?ob (files w) target payload =
           (None, files w # writing (files w) ?tmp payload (length payload) @
                  [(files w)(target \<mapsto> payload)])"
        by (simp add: write_rename_clean)
      then show ?thesis by (simp add: e st r)
    qed
    from a b show ?thesis by blast
  qed
  have 8: "so = None \<or>
          (\<exists>s. so = Some s \<and>
             (storage s = [] \<or>
              (\<not> invalidFilename (sanitizeSessionFilename sessionKey) \<and>
               Mapping.lookup (SessionStore.sessions s) sessionKey = None))) \<longrightarrow>
            err = None \<and> states = [files w]"
    by (auto simp: e st Save_run_nothing)
  have 9: "err = None \<and>
          \<not> (\<exists>s session. so = Some s \<and> storage s \<noteq> [] \<and>
                Mapping.lookup (SessionStore.sessions s) sessionKey = Some session) \<longrightarrow>
            states = [files w]"
    unfolding e st using Save_run_None_absent by blast
  have 10: "\<forall>s. so = Some s \<and> storage s \<noteq> [] \<and>
              invalidFilename (sanitizeSessionFilename sessionKey) \<longrightarrow>
            err = Some ErrInvalid \<and> states = [files w]"
    by (auto simp: e st Save_run_refused)
  have 11: "\<forall>s session e.
            so = Some s \<and> storage s \<noteq> [] \<and>
            \<not> invalidFilename (sanitizeSessionFilename sessionKey) \<and>
            Mapping.lookup (SessionStore.sessions s) sessionKey = Some session \<and>
            marshal w session = Inl e \<longrightarrow>
            err = Some e \<and> states = [files w]"
    by (auto simp: e st Save_run_unencoded)
  have 12: "\<forall>s k msg. \<exists>w2 s' session.
            files w2 = files w \<and> marshal w2 = marshal w \<and>
            os_plan w2 = os_plan w \<and> saves w2 = saves w \<and> storage s' = storage s \<and>
            Mapping.lookup (SessionStore.sessions s') (storeKey k) = Some session \<and>
            Key session = (case Mapping.lookup (SessionStore.sessions s) (storeKey k) of
                             None \<Rightarrow> storeKey k | Some old \<Rightarrow> Key old) \<and>
            Messages session = History (Some s) k @ [msg] \<and>
            AddMessage w (Some s) k msg =
              (fst (Save w2 (Some s') (storeKey k)), Some s', snd (Save w2 (Some s') (storeKey k)))"
    using AddMessage_Save_full by blast
  from 7 have c7: "\<forall>s session payload.
            so = Some s \<and> storage s \<noteq> [] \<and>
            \<not> invalidFilename (sanitizeSessionFilename sessionKey) \<and>
            Mapping.lookup (SessionStore.sessions s) sessionKey = Some session \<and>
            marshal w session = Inr payload \<longrightarrow>
            (err = None \<longleftrightarrow> fault ?ob = NoFault \<and> files w ?tmp = None) \<and>
            (fault ?ob = NoFault \<and> files w ?tmp = None \<longrightarrow>
               err = None \<and>
               states = files w # writing (files w) ?tmp payload (length payload) @
                        [(files w)(target \<mapsto> payload)] \<and>
               last states = (files w)(target \<mapsto> payload))"
    by blast
  show ?thesis
    by (intro conjI) (rule 1 [THEN conjunct1] 1 [THEN conjunct2] 2 3 4 5 6 c7 8 9 10 11 12)+
qed

theorem Save_atomic_witness:
  "fst (Save world2 (Some store1) ''k'') = Some (IOError ''sync'') \<and>
   files world2 ''k.json'' = Some ''old'' \<and>
   files (snd (Save world2 (Some store1) ''k'')) ''k.json'' = Some ''old'' \<and>
   fst (Save world1 (Some store1) ''k'') = None \<and>
   files (snd (Save world1 (Some store1) ''k'')) ''k.json'' = Some ''k|hello''"
proof -
  let ?session = "\<lparr>Key = ''k'', Messages = [msg0], Created = 1, Updated = 2\<rparr>"
  have t: "''k.json'' = sanitizeSessionFilename ''k'' @ ''.json''" by code_simp
  have old: "files world2 ''k.json'' = Some ''old''" "files world1 ''k.json'' = Some ''old''"
    by (simp_all add: world2_def world1_def)
  have e2: "fst (Save_run world2 (Some store1) ''k'') = Some (IOError ''sync'')" by code_simp
  have st: "storage store1 \<noteq> []" by (simp add: store1_def)
  have v: "\<not> invalidFilename (sanitizeSessionFilename ''k'')" by code_simp
  have lk: "Mapping.lookup (SessionStore.sessions store1) ''k'' = Some ?session"
    by (simp add: store1_def)
  have m1: "marshal world1 ?session = Inr ''k|hello''"
    by (simp add: world1_def world0_def encode0_def msg0_def)
  have m2: "marshal world2 ?session = Inr ''k|hello''"
    by (simp add: world2_def world1_def world0_def encode0_def msg0_def)
  have nf: "fault (os_plan world1 (saves world1)) = NoFault"
    by (simp add: world1_def world0_def)
  have fresh: "files world1 (tmpName (tmp_rand (os_plan world1 (saves world1)))) = None"
    by (simp add: world1_def world0_def tmpName_def)
  have f2: "fault (os_plan world2 (saves world2)) \<noteq> NoFault"
    by (simp add: world2_def world1_def world0_def sync_fails_def)
  note a2 = Save_atomic [OF prod.collapse [symmetric] t, of world2 "Some store1"]
  note a1 = Save_atomic [OF prod.collapse [symmetric] t, of world1 "Some store1"]
  from a2 have "Some store1 = Some store1 \<and> storage store1 \<noteq> [] \<and>
      \<not> invalidFilename (sanitizeSessionFilename ''k'') \<and>
      Mapping.lookup (SessionStore.sessions store1) ''k'' = Some ?session \<and>
      marshal world2 ?session = Inr ''k|hello'' \<longrightarrow>
      (fst (Save_run world2 (Some store1) ''k'') = None \<longleftrightarrow>
         fault (os_plan world2 (saves world2)) = NoFault \<and>
         files world2 (tmpName (tmp_rand (os_plan world2 (saves world2)))) = None)"
    by blast
  with st v lk m2 f2 have n2: "fst (Save_run world2 (Some store1) ''k'') \<noteq> None" by blast
  from a2 have "fst (Save world2 (Some store1) ''k'') = fst (Save_run world2 (Some store1) ''k'')"
    by blast
  with e2 have c1: "fst (Save world2 (Some store1) ''k'') = Some (IOError ''sync'')" by simp
  from a2 n2 have "last (snd (Save_run world2 (Some store1) ''k'')) ''k.json'' = files world2 ''k.json''"
    by blast
  moreover from a2 have "files (snd (Save world2 (Some store1) ''k'')) =
      last (snd (Save_run world2 (Some store1) ''k''))"
    by blast
  ultimately have c2: "files (snd (Save world2 (Some store1) ''k'')) ''k.json'' = files world2 ''k.json''"
    by simp
  from a1 have "Some store1 = Some store1 \<and> storage store1 \<noteq> [] \<and>
      \<not> invalidFilename (sanitizeSessionFilename ''k'') \<and>
      Mapping.lookup (SessionStore.sessions store1) ''k'' = Some ?session \<and>
      marshal world1 ?session = Inr ''k|hello'' \<longrightarrow>
      (fault (os_plan world1 (saves world1)) = NoFault \<and>
       files world1 (tmpName (tmp_rand (os_plan world1 (saves world1)))) = None \<longrightarrow>
         fst (Save_run world1 (Some store1) ''k'') = None \<and>
         last (snd (Save_run world1 (Some store1) ''k'')) = (files world1)(''k.json'' \<mapsto> ''k|hello''))"
    by blast
  with st v lk m1 nf fresh have
    ok: "fst (Save_run world1 (Some store1) ''k'') = None"
    and w: "last (snd (Save_run world1 (Some store1) ''k'')) = (files world1)(''k.json'' \<mapsto> ''k|hello'')"
    by blast+
  from a1 have s1: "fst (Save world1 (Some store1) ''k'') = fst (Save_run world1 (Some store1) ''k'')"
    and s2: "files (snd (Save world1 (Some store1) ''k'')) = last (snd (Save_run world1 (Some store1) ''k''))"
    by blast+
  from s1 ok have c3: "fst (Save world1 (Some store1) ''k'') = None" by simp
  from s2 w have c4: "files (snd (Save world1 (Some store1) ''k'')) ''k.json'' = Some ''k|hello''"
    by simp
  from c1 c2 c3 c4 old show ?thesis by simp
qed

section \<open>Properties of the agent\<close>

lemma lastN_append: "lastN n (lastN n xs @ ys) = lastN n (xs @ ys)"
  by (cases "length xs \<le> n") (simp_all add: lastN_def add.commute)

lemma lastN_length: "length (lastN n xs) = min (length xs) n"
  by (simp add: lastN_def)

lemma lastN_short: "length xs \<le> n \<Longrightarrow> lastN n xs = xs"
  by (simp add: lastN_def)

lemma Save_world:
  "unicodeLower (snd (Save w so key)) = unicodeLower w \<and> marshal (snd (Save w so key)) = marshal w"
  by (simp add: Save_def split_def Let_def)

lemma AddMessage_world: "unicodeLower (snd (snd (AddMessage w so k msg))) = unicodeLower w"
  by (cases so) (simp_all add: AddMessage_def split_def Let_def time_Now_def Save_world split: option.splits)

lemma AddMessage_None: "fst (snd (AddMessage w None k msg)) = None"
  by (simp add: AddMessage_def)

lemma remember_memory:
  "memory (fst (snd (remember w a msg))) = lastN (maxMemory a) (memory a @ [msg])"
  by (simp add: remember_def Let_def split_def lastN_def split: option.splits)

lemma remember_size: "fst (remember w a msg) = min (Suc (length (memory a))) (maxMemory a)"
  by (auto simp add: remember_def Let_def split_def split: option.splits)

lemma remember_fields:
  "maxMemory (fst (snd (remember w a msg))) = maxMemory a \<and>
   webFetch (fst (snd (remember w a msg))) = webFetch a \<and>
   browser (fst (snd (remember w a msg))) = browser a \<and>
   systemPrompt (fst (snd (remember w a msg))) = systemPrompt a"
  by (simp add: remember_def Let_def split_def split: option.splits)

lemma remember_world: "unicodeLower (snd (snd (remember w a msg))) = unicodeLower w"
  by (simp add: remember_def Let_def split_def AddMessage_world split: option.splits)

lemma colon_key_not_global:
  assumes "CHR '':'' \<in> set k"
  shows "storeKey k \<noteq> ''global''"
proof -
  from assms colon_no_space have "CHR '':'' \<in> set (TrimSpace k)" by (rule TrimSpace_keeps)
  then have "CHR '':'' \<in> set (storeKey k)" by (auto simp: storeKey_def Let_def)
  then show ?thesis by auto
qed

lemma messageSessionKey_colon:
  "messageSessionKey m \<noteq> ''global'' \<Longrightarrow> CHR '':'' \<in> set (messageSessionKey m)"
  by (auto simp: messageSessionKey_def split: if_splits)

lemma derived_key_not_global:
  "messageSessionKey m \<noteq> ''global'' \<Longrightarrow> storeKey (messageSessionKey m) \<noteq> ''global''"
  by (rule colon_key_not_global) (rule messageSessionKey_colon)

lemma remember_sessions_None:
  "Agent.sessions a = None \<Longrightarrow> Agent.sessions (fst (snd (remember w a msg))) = None"
  by (simp add: remember_def Let_def)

lemma remember_sessions_Some:
  assumes "Agent.sessions a = Some s"
  shows "\<exists>s'. Agent.sessions (fst (snd (remember w a msg))) = Some s'"
proof -
  obtain e1 so1 w1 where r1: "AddMessage w (Some s) (messageSessionKey msg) msg = (e1, so1, w1)"
    by (cases "AddMessage w (Some s) (messageSessionKey msg) msg") auto
  from AddMessage_Some [of w s "messageSessionKey msg" msg] r1
  obtain s1 where s1: "so1 = Some s1" by auto
  obtain e2 so2 w2 where r2: "AddMessage w1 (Some s1) ''global'' msg = (e2, so2, w2)"
    by (cases "AddMessage w1 (Some s1) ''global'' msg") auto
  from AddMessage_Some [of w1 s1 "''global''" msg] r2
  obtain s2 where s2: "so2 = Some s2" by auto
  from assms r1 s1 r2 s2 show ?thesis
    by (simp add: remember_def Let_def)
qed

lemma remember_History:
  assumes "Agent.sessions a = Some s"
  shows "History (Agent.sessions (fst (snd (remember w a msg)))) k =
         History (Some s) k @
           (if storeKey (messageSessionKey msg) = storeKey k \<or> storeKey k = ''global'' then [msg] else [])"
proof -
  let ?key = "messageSessionKey msg"
  obtain e1 so1 w1 where r1: "AddMessage w (Some s) ?key msg = (e1, so1, w1)"
    by (cases "AddMessage w (Some s) ?key msg") auto
  from AddMessage_Some [of w s ?key msg] r1
  obtain s1 where s1: "so1 = Some s1" by auto
  have h1: "History (Some s1) k =
      (if storeKey k = storeKey ?key then History (Some s) k @ [msg] else History (Some s) k)"
    using History_AddMessage [of w s ?key msg k] r1 s1 by simp
  show ?thesis
  proof (cases "?key = ''global''")
    case True
    with assms r1 s1 have "Agent.sessions (fst (snd (remember w a msg))) = Some s1"
      by (simp add: remember_def Let_def)
    with h1 True show ?thesis by (auto simp: storeKey_global)
  next
    case False
    obtain e2 so2 w2 where r2: "AddMessage w1 (Some s1) ''global'' msg = (e2, so2, w2)"
      by (cases "AddMessage w1 (Some s1) ''global'' msg") auto
    have h2: "History so2 k =
      (if storeKey k = ''global'' then History (Some s1) k @ [msg] else History (Some s1) k)"
      using History_AddMessage [of w1 s1 "''global''" msg k] r2 by (simp add: storeKey_global)
    from assms r1 s1 r2 False have "Agent.sessions (fst (snd (remember w a msg))) = so2"
      by (simp add: remember_def Let_def)
    moreover from False have "storeKey ?key \<noteq> ''global''" by (rule derived_key_not_global)
    ultimately show ?thesis using h1 h2 by auto
  qed
qed

lemma normalize_rel: "normalized_of (fst (normalizeMessage w msg)) msg"
  by (auto simp: normalizeMessage_def normalized_of_def Let_def split_def time_Now_def)

lemma normalize_Text: "Text (fst (normalizeMessage w msg)) = TrimSpace (Text msg)"
  by (simp add: normalizeMessage_def Let_def split_def time_Now_def)

lemma normalize_Channel: "Channel (fst (normalizeMessage w msg)) = Channel msg"
  by (simp add: normalizeMessage_def Let_def split_def time_Now_def)

lemma normalize_world: "unicodeLower (snd (normalizeMessage w msg)) = unicodeLower w"
  by (simp add: normalizeMessage_def Let_def split_def time_Now_def)

lemma normalized_of_key: "normalized_of m' m \<Longrightarrow> messageSessionKey m' = messageSessionKey m"
  by (auto simp: normalized_of_def messageSessionKey_def)

lemma Process_blank:
  assumes "blank (Text msg)"
  shows "fst (Process w a msg) = Inr [] \<and> fst (snd (Process w a msg)) = a"
  using assms
  by (simp add: Process_def split_def Let_def normalize_Text TrimSpace_blank_iff)

lemma Process_state:
  assumes "\<not> blank (Text msg)"
  shows "snd (Process w a msg) = snd (remember (snd (normalizeMessage w msg)) a (fst (normalizeMessage w msg)))"
  using assms
  by (simp add: Process_def split_def Let_def normalize_Text TrimSpace_blank_iff)

lemma Process_reply:
  assumes "\<not> blank (Text msg)"
    and "m = fst (normalizeMessage w msg)"
    and "lower = ToLower (unicodeLower w) (Text m)"
  shows "fst (Process w a msg) =
     (if HasPrefix lower ''/status'' then
        Inr (statusReply (Stats (fst (snd (remember (snd (normalizeMessage w msg)) a m)))))
      else if HasPrefix lower ''/fetch '' \<and> webFetch a \<noteq> None then fetchCommand (the (webFetch a)) m
      else if HasPrefix lower ''/browse '' then browseCommand a m
      else Inr (readyReply m (min (Suc (length (memory a))) (maxMemory a))))"
proof -
  let ?w1 = "snd (normalizeMessage w msg)"
  let ?r = "remember ?w1 a m"
  have u: "unicodeLower (snd (snd ?r)) = unicodeLower w"
    by (simp add: remember_world normalize_world)
  have f: "webFetch (fst (snd ?r)) = webFetch a" "browser (fst (snd ?r)) = browser a"
    by (simp_all add: remember_fields)
  have b: "browseCommand (fst (snd ?r)) m = browseCommand a m"
    by (simp add: browseCommand_def f cong: sum.case_cong option.case_cong if_cong)
  from assms(1) have ne: "Text m \<noteq> []"
    by (simp add: assms(2) normalize_Text TrimSpace_blank_iff)
  show ?thesis
    using ne
    by (auto simp add: Process_def split_def Let_def assms(2) [symmetric] assms(3) u f b remember_size)
qed

lemma ProcessAll_Cons:
  "ProcessAll w a (msg # msgs) =
     (fst (Process w a msg) # fst (ProcessAll (snd (snd (Process w a msg))) (fst (snd (Process w a msg))) msgs),
      snd (ProcessAll (snd (snd (Process w a msg))) (fst (snd (Process w a msg))) msgs))"
  by (simp add: split_def Let_def)

lemma ProcessAll_maxMemory: "maxMemory (fst (snd (ProcessAll w a msgs))) = maxMemory a"
proof (induction msgs arbitrary: w a)
  case Nil
  then show ?case by simp
next
  case (Cons msg msgs)
  have "maxMemory (fst (snd (Process w a msg))) = maxMemory a"
    by (cases "blank (Text msg)") (simp_all add: Process_blank Process_state remember_fields)
  with Cons show ?case by (simp add: ProcessAll_Cons del: ProcessAll.simps)
qed

lemma Process_memory:
  "memory (fst (snd (Process w a msg))) =
     (if blank (Text msg) then memory a
      else lastN (maxMemory a) (memory a @ [fst (normalizeMessage w msg)]))"
  by (simp add: Process_blank Process_state remember_memory)

lemma Process_maxMemory: "maxMemory (fst (snd (Process w a msg))) = maxMemory a"
  by (cases "blank (Text msg)") (simp_all add: Process_blank Process_state remember_fields)

lemma ProcessAll_memory:
  assumes "length (memory a) \<le> maxMemory a"
  shows "\<exists>ms. list_all2 normalized_of ms (filter (\<lambda>m. \<not> blank (Text m)) msgs) \<and>
        memory (fst (snd (ProcessAll w a msgs))) = lastN (maxMemory a) (memory a @ ms)"
  using assms
proof (induction msgs arbitrary: w a)
  case Nil
  then show ?case by (simp add: lastN_short)
next
  case (Cons msg msgs)
  let ?a1 = "fst (snd (Process w a msg))"
  let ?w1 = "snd (snd (Process w a msg))"
  have mx: "maxMemory ?a1 = maxMemory a" by (rule Process_maxMemory)
  have inv: "length (memory ?a1) \<le> maxMemory ?a1"
    using Cons.prems by (simp add: Process_memory mx lastN_length)
  from Cons.IH [OF inv, of ?w1] obtain ms where
    ms: "list_all2 normalized_of ms (filter (\<lambda>m. \<not> blank (Text m)) msgs)"
        "memory (fst (snd (ProcessAll ?w1 ?a1 msgs))) = lastN (maxMemory a) (memory ?a1 @ ms)"
    by (auto simp: mx)
  show ?case
  proof (cases "blank (Text msg)")
    case True
    with ms show ?thesis
      by (auto simp: ProcessAll_Cons Process_memory simp del: ProcessAll.simps)
  next
    case False
    let ?m = "fst (normalizeMessage w msg)"
    from False ms(2) have "memory (fst (snd (ProcessAll w a (msg # msgs)))) =
        lastN (maxMemory a) (memory a @ ?m # ms)"
      by (simp add: ProcessAll_Cons Process_memory lastN_append del: ProcessAll.simps)
    moreover from False ms(1) have
      "list_all2 normalized_of (?m # ms) (filter (\<lambda>m. \<not> blank (Text m)) (msg # msgs))"
      by (simp add: normalize_rel)
    ultimately show ?thesis by blast
  qed
qed

lemma NewAgent_fields:
  "memory (NewAgent p b f st) = [] \<and> maxMemory (NewAgent p b f st) = 128 \<and>
   Agent.sessions (NewAgent p b f st) = st \<and> webFetch (NewAgent p b f st) = f \<and>
   browser (NewAgent p b f st) = b"
  by (simp add: NewAgent_def)

text \<open>
  Claim C5: a new agent processes a sequence of messages; those whose text is not blank
  are normalised and remembered. The buffer then holds the last 128 of them, in the order
  of arrival: when more than 128 were remembered its length is 128 and it is the list
  without its first \<open>M - 128\<close> elements; otherwise it is the whole list.
\<close>

theorem memory_bounded:
  "\<exists>ms. list_all2 normalized_of ms (filter (\<lambda>m. \<not> blank (Text m)) msgs) \<and>
        length ms = length (filter (\<lambda>m. \<not> blank (Text m)) msgs) \<and>
        memory (fst (snd (ProcessAll w (NewAgent prompt browserTool fetchTool store) msgs))) =
          lastN 128 ms \<and>
        (128 < length ms \<longrightarrow>
           length (memory (fst (snd (ProcessAll w (NewAgent prompt browserTool fetchTool store) msgs)))) = 128 \<and>
           memory (fst (snd (ProcessAll w (NewAgent prompt browserTool fetchTool store) msgs))) =
             drop (length ms - 128) ms) \<and>
        (length ms \<le> 128 \<longrightarrow>
           memory (fst (snd (ProcessAll w (NewAgent prompt browserTool fetchTool store) msgs))) = ms)"
proof -
  let ?a = "NewAgent prompt browserTool fetchTool store"
  have "length (memory ?a) \<le> maxMemory ?a" by (simp add: NewAgent_fields)
  from ProcessAll_memory [OF this, of msgs w] obtain ms where
    ms: "list_all2 normalized_of ms (filter (\<lambda>m. \<not> blank (Text m)) msgs)"
        "memory (fst (snd (ProcessAll w ?a msgs))) = lastN 128 ms"
    by (auto simp: NewAgent_fields)
  from ms(1) have len: "length ms = length (filter (\<lambda>m. \<not> blank (Text m)) msgs)"
    by (rule list_all2_lengthD)
  have big: "128 < length ms \<longrightarrow>
      length (memory (fst (snd (ProcessAll w ?a msgs)))) = 128 \<and>
      memory (fst (snd (ProcessAll w ?a msgs))) = drop (length ms - 128) ms"
    by (simp add: ms(2) lastN_def)
  have small: "length ms \<le> 128 \<longrightarrow> memory (fst (snd (ProcessAll w ?a msgs))) = ms"
    by (simp add: ms(2) lastN_short)
  from ms len big small show ?thesis by blast
qed

theorem memory_bounded_witness:
  "length (memory (fst (snd (ProcessAll world0 (NewAgent [] None None None) (replicate 130 msg0))))) = 128"
proof -
  have "TrimSpace (Text msg0) \<noteq> []" by code_simp
  then have nb: "\<not> blank (Text msg0)" by (simp add: TrimSpace_blank_iff)
  let ?mem = "memory (fst (snd (ProcessAll world0 (NewAgent [] None None None) (replicate 130 msg0))))"
  from memory_bounded [of "replicate 130 msg0" world0 "[]" None None None]
  obtain ms where
    "list_all2 normalized_of ms (filter (\<lambda>m. \<not> blank (Text m)) (replicate 130 msg0)) \<and>
     length ms = length (filter (\<lambda>m. \<not> blank (Text m)) (replicate 130 msg0)) \<and>
     ?mem = lastN 128 ms \<and>
     (128 < length ms \<longrightarrow> length ?mem = 128 \<and> ?mem = drop (length ms - 128) ms) \<and>
     (length ms \<le> 128 \<longrightarrow> ?mem = ms)" ..
  then have len: "length ms = length (filter (\<lambda>m. \<not> blank (Text m)) (replicate 130 msg0))"
    and big: "128 < length ms \<longrightarrow> length ?mem = 128 \<and> ?mem = drop (length ms - 128) ms"
    by blast+
  from len nb have "length ms = 130" by simp
  with big show ?thesis by simp
qed

lemma Process_sessions_Some:
  assumes "Agent.sessions a = Some s"
  shows "\<exists>s'. Agent.sessions (fst (snd (Process w a msg))) = Some s'"
proof (cases "blank (Text msg)")
  case True
  with assms show ?thesis by (simp add: Process_blank)
next
  case False
  with remember_sessions_Some [OF assms] show ?thesis by (simp add: Process_state)
qed

lemma Process_History:
  assumes "Agent.sessions a = Some s"
  shows "History (Agent.sessions (fst (snd (Process w a msg)))) k =
         History (Some s) k @
           (if \<not> blank (Text msg) \<and>
               (storeKey (messageSessionKey msg) = storeKey k \<or> storeKey k = ''global'')
            then [fst (normalizeMessage w msg)] else [])"
proof (cases "blank (Text msg)")
  case True
  with assms show ?thesis by (simp add: Process_blank)
next
  case False
  have "messageSessionKey (fst (normalizeMessage w msg)) = messageSessionKey msg"
    using normalize_rel by (rule normalized_of_key)
  with False remember_History [OF assms] show ?thesis by (simp add: Process_state)
qed

lemma ProcessAll_History:
  assumes "Agent.sessions a = Some s"
  shows "\<exists>ms. list_all2 normalized_of ms (filter (\<lambda>m. \<not> blank (Text m)) msgs) \<and>
     (\<forall>k. History (Agent.sessions (fst (snd (ProcessAll w a msgs)))) k =
           History (Some s) k @
             filter (\<lambda>m. storeKey (messageSessionKey m) = storeKey k \<or> storeKey k = ''global'') ms)"
  using assms
proof (induction msgs arbitrary: w a s)
  case Nil
  then show ?case by simp
next
  case (Cons msg msgs)
  let ?a1 = "fst (snd (Process w a msg))"
  let ?w1 = "snd (snd (Process w a msg))"
  let ?m = "fst (normalizeMessage w msg)"
  from Process_sessions_Some [OF Cons.prems] obtain s1 where s1: "Agent.sessions ?a1 = Some s1"
    by blast
  have h1: "History (Some s1) k =
         History (Some s) k @
           (if \<not> blank (Text msg) \<and>
               (storeKey (messageSessionKey msg) = storeKey k \<or> storeKey k = ''global'')
            then [?m] else [])" for k
    using Process_History [OF Cons.prems, of w msg k] s1 by simp
  from Cons.IH [OF s1, of ?w1] obtain ms where
    ms: "list_all2 normalized_of ms (filter (\<lambda>m. \<not> blank (Text m)) msgs)"
        "\<And>k. History (Agent.sessions (fst (snd (ProcessAll ?w1 ?a1 msgs)))) k =
           History (Some s1) k @
             filter (\<lambda>m. storeKey (messageSessionKey m) = storeKey k \<or> storeKey k = ''global'') ms"
    by blast
  have key: "messageSessionKey ?m = messageSessionKey msg"
    using normalize_rel by (rule normalized_of_key)
  show ?case
  proof (cases "blank (Text msg)")
    case True
    with ms h1 show ?thesis
      by (auto simp: ProcessAll_Cons simp del: ProcessAll.simps)
  next
    case False
    from False ms(1) have
      "list_all2 normalized_of (?m # ms) (filter (\<lambda>m. \<not> blank (Text m)) (msg # msgs))"
      by (simp add: normalize_rel)
    moreover from False have "\<forall>k. History (Agent.sessions (fst (snd (ProcessAll w a (msg # msgs))))) k =
           History (Some s) k @
             filter (\<lambda>m. storeKey (messageSessionKey m) = storeKey k \<or> storeKey k = ''global'') (?m # ms)"
      by (simp add: ProcessAll_Cons ms(2) h1 key del: ProcessAll.simps)
    ultimately show ?thesis by blast
  qed
qed

text \<open>
  Claim C3, as stated, fails: \<open>AddMessage\<close> trims the key it is given, so two messages
  whose derived keys differ by white space at either end land in one session, and the
  history of a derived key holds a message that was sent under another key.
\<close>

theorem fan_out_counterexample:
  "messageSessionKey msg0 = ''telegram:42'' \<and>
   messageSessionKey msg1 = '' telegram:42'' \<and>
   History (Agent.sessions (fst (snd (ProcessAll world0 agent0 [msg0, msg1])))) ''telegram:42'' =
     [msg0, msg1]"
  by code_simp

text \<open>
  Claim C3, amended: every processed message (one whose text is not blank) is appended,
  normalised, to the session filed under its derived key with the white space around the
  key removed, and to the session \<open>global\<close>; these are two sessions when the derived key
  is not \<open>global\<close> and one when it is, and no other session changes. So after a sequence
  of messages the history of a key is what it was, followed by the processed messages
  whose derived key is that key up to white space around it, in arrival order, and the
  history of \<open>global\<close> is what it was, followed by every processed message.
\<close>

theorem fan_out:
  assumes "Agent.sessions a = Some s"
  shows "\<exists>ms. list_all2 normalized_of ms (filter (\<lambda>m. \<not> blank (Text m)) msgs) \<and>
     (\<forall>k. History (Agent.sessions (fst (snd (ProcessAll w a msgs)))) k =
           History (Some s) k @
             filter (\<lambda>m. storeKey (messageSessionKey m) = storeKey k \<or> storeKey k = ''global'') ms) \<and>
     History (Agent.sessions (fst (snd (ProcessAll w a msgs)))) ''global'' =
       History (Some s) ''global'' @ ms \<and>
     (\<forall>m. messageSessionKey m \<noteq> ''global'' \<longrightarrow> storeKey (messageSessionKey m) \<noteq> ''global'')"
proof -
  from ProcessAll_History [OF assms, of msgs w] obtain ms where
    ms: "list_all2 normalized_of ms (filter (\<lambda>m. \<not> blank (Text m)) msgs)"
    and h: "\<forall>k. History (Agent.sessions (fst (snd (ProcessAll w a msgs)))) k =
           History (Some s) k @
             filter (\<lambda>m. storeKey (messageSessionKey m) = storeKey k \<or> storeKey k = ''global'') ms"
    by blast
  from h have g: "History (Agent.sessions (fst (snd (ProcessAll w a msgs)))) ''global'' =
       History (Some s) ''global'' @ ms"
    by (simp add: storeKey_global)
  have d: "\<forall>m. messageSessionKey m \<noteq> ''global'' \<longrightarrow> storeKey (messageSessionKey m) \<noteq> ''global''"
    by (simp add: derived_key_not_global)
  from ms h g d show ?thesis by blast
qed

theorem fan_out_witness:
  "Agent.sessions agent0 = Some store0 \<and>
   length (History (Agent.sessions (fst (snd (ProcessAll world0 agent0 [msg0, msg1])))) ''global'') = 2"
proof -
  have a: "Agent.sessions agent0 = Some store0" by (simp add: agent0_def NewAgent_def)
  have "TrimSpace (Text msg0) \<noteq> [] \<and> TrimSpace (Text msg1) \<noteq> []" by code_simp
  then have nb: "\<not> blank (Text msg0)" "\<not> blank (Text msg1)" by (simp_all add: TrimSpace_blank_iff)
  have h0: "History (Some store0) ''global'' = []" by (simp add: History_storeKey store0_def)
  let ?h = "History (Agent.sessions (fst (snd (ProcessAll world0 agent0 [msg0, msg1])))) ''global''"
  from fan_out [OF a, of "[msg0, msg1]" world0] obtain ms where
    "list_all2 normalized_of ms (filter (\<lambda>m. \<not> blank (Text m)) [msg0, msg1]) \<and>
     ?h = History (Some store0) ''global'' @ ms"
    by blast
  then have l: "length ms = length (filter (\<lambda>m. \<not> blank (Text m)) [msg0, msg1])"
    and g: "?h = History (Some store0) ''global'' @ ms"
    by (blast dest: list_all2_lengthD)+
  from l nb have "length ms = 2" by simp
  with g h0 have "length ?h = 2" by simp
  with a show ?thesis by blast
qed

lemma ToLower_Nil: "ToLower U [] = []"
  by (simp add: ToLower_def)

text \<open>
  Claim C9 does not hold of the code. \<open>Process\<close> trims the text before it looks at the
  command, so a message that is the command alone, with or without white space after it,
  has the text \<open>/fetch\<close>, which does not start with the command followed by a space: the
  branch of the command is not entered and the reply is the acknowledgment.
\<close>

theorem bare_fetch_falls_through:
  assumes "ToLower (unicodeLower w) (TrimSpace (Text msg)) = ''/fetch''"
  shows "fst (Process w a msg) =
     Inr (''ClawKangsar ready. Channel='' @ Channel msg @ '' memory='' @
          itoa (int (min (Suc (length (memory a))) (maxMemory a))))"
proof -
  let ?m = "fst (normalizeMessage w msg)"
  from assms have "TrimSpace (Text msg) \<noteq> []" by (auto simp: ToLower_Nil)
  then have nb: "\<not> blank (Text msg)" by (simp add: TrimSpace_blank_iff)
  have lower: "ToLower (unicodeLower w) (Text ?m) = ''/fetch''"
    using assms by (simp add: normalize_Text)
  from Process_reply [OF nb refl refl, where a = a]
  have "fst (Process w a msg) = Inr (readyReply ?m (min (Suc (length (memory a))) (maxMemory a)))"
    by (simp add: lower HasPrefix_def)
  then show ?thesis by (simp add: readyReply_def normalize_Channel)
qed

theorem bare_fetch_falls_through_witness:
  "webFetch agent0 \<noteq> None \<and>
   fst (Process world0 agent0
          \<lparr>Channel = ''telegram'', UserID = ''7'', ChatID = ''42'', Text = ''/fetch  '', Timestamp = 5\<rparr>) =
     Inr ''ClawKangsar ready. Channel=telegram memory=1''"
proof -
  have f: "webFetch agent0 \<noteq> None" by (simp add: agent0_def NewAgent_def)
  have h: "ToLower (unicodeLower world0)
      (TrimSpace (Text \<lparr>Channel = ''telegram'', UserID = ''7'', ChatID = ''42'', Text = ''/fetch  '', Timestamp = 5\<rparr>)) =
      ''/fetch''"
    by code_simp
  have v: "''ClawKangsar ready. Channel='' @
      Channel \<lparr>Channel = ''telegram'', UserID = ''7'', ChatID = ''42'', Text = ''/fetch  '', Timestamp = 5\<rparr> @
      '' memory='' @ itoa (int (min (Suc (length (memory agent0))) (maxMemory agent0))) =
      ''ClawKangsar ready. Channel=telegram memory=1''"
    by code_simp
  from bare_fetch_falls_through [OF h, of agent0] v f show ?thesis by simp
qed

lemma truncate_capped: "truncate text 1200 = Inr (capped text)"
  by (simp add: truncate_def capped_def)

lemma sliceFrom_drop: "TrimSpace (drop n t) \<noteq> [] \<Longrightarrow> sliceFrom t n = Inr (drop n t)"
proof -
  assume "TrimSpace (drop n t) \<noteq> []"
  then have "drop n t \<noteq> []" by (auto simp: TrimSpace_def trimLeft_Nil trimRight_Nil)
  then show ?thesis by (simp add: sliceFrom_def)
qed

lemma command_lengths: "length ''/fetch '' = 7" "length ''/browse '' = 8"
  by simp_all

lemma fetchCommand_text:
  assumes "TrimSpace (drop 7 (Text m)) \<noteq> []" and "fetch (TrimSpace (drop 7 (Text m))) = Inr text"
  shows "fetchCommand fetch m = Inr (capped text)"
  using assms unfolding fetchCommand_def command_lengths
  by (simp add: sliceFrom_drop truncate_capped)

lemma browseCommand_fetched:
  assumes "TrimSpace (drop 8 (Text m)) \<noteq> []" and "webFetch a = Some fetch"
    and "fetch (TrimSpace (drop 8 (Text m))) = Inr text" and "\<not> blank text"
  shows "browseCommand a m = Inr (capped text)"
  using assms unfolding browseCommand_def command_lengths
  by (simp add: sliceFrom_drop truncate_capped TrimSpace_blank_iff [symmetric])

lemma browseCommand_browsed:
  assumes "TrimSpace (drop 8 (Text m)) \<noteq> []"
    and "webFetch a = None \<or>
         (\<exists>fetch. webFetch a = Some fetch \<and>
            (\<forall>t. fetch (TrimSpace (drop 8 (Text m))) = Inr t \<longrightarrow> blank t))"
    and "browser a = Some browse" and "browse (TrimSpace (drop 8 (Text m))) = Inr text"
  shows "browseCommand a m = Inr (capped text)"
  using assms unfolding browseCommand_def command_lengths
  by (auto simp add: sliceFrom_drop truncate_capped TrimSpace_blank_iff [symmetric]
      split: sum.splits)

lemma fetch_not_browse: "HasPrefix lower ''/browse '' \<Longrightarrow> \<not> HasPrefix lower ''/fetch ''"
  by (auto simp: HasPrefix_def prefix_def)

text \<open>
  Claim C7: \<open>truncate\<close> with the maximum 1200 returns a text of at most 1200 bytes as it
  is, and of a longer text the first 1200 bytes followed by the marker of three dots, so
  1203 bytes. \<open>Process\<close> answers with the truncated text wherever the answer is the text
  of a tool: the text fetched for the command \<open>/fetch\<close>, the text fetched for the command
  \<open>/browse\<close> when it is not blank, and the text of the browser otherwise.
\<close>

theorem tool_text_truncated:
  assumes "m = fst (normalizeMessage w msg)"
    and "lower = ToLower (unicodeLower w) (Text m)"
    and "\<not> blank (Text msg)"
    and "\<not> HasPrefix lower ''/status''"
  shows "truncate text 1200 = Inr (capped text) \<and>
    (length text \<le> 1200 \<longrightarrow> capped text = text) \<and>
    (1200 < length text \<longrightarrow>
       capped text = take 1200 text @ ''...'' \<and> length (capped text) = 1200 + length ''...'') \<and>
    (HasPrefix lower ''/fetch '' \<and> webFetch a = Some fetch \<and>
     TrimSpace (drop 7 (Text m)) \<noteq> [] \<and> fetch (TrimSpace (drop 7 (Text m))) = Inr text \<longrightarrow>
       fst (Process w a msg) = Inr (capped text)) \<and>
    (HasPrefix lower ''/browse '' \<and> webFetch a = Some fetch \<and>
     TrimSpace (drop 8 (Text m)) \<noteq> [] \<and> fetch (TrimSpace (drop 8 (Text m))) = Inr text \<and>
     \<not> blank text \<longrightarrow>
       fst (Process w a msg) = Inr (capped text)) \<and>
    (HasPrefix lower ''/browse '' \<and>
     (webFetch a = None \<or>
      (\<exists>f. webFetch a = Some f \<and> (\<forall>t. f (TrimSpace (drop 8 (Text m))) = Inr t \<longrightarrow> blank t))) \<and>
     TrimSpace (drop 8 (Text m)) \<noteq> [] \<and> browser a = Some browse \<and>
     browse (TrimSpace (drop 8 (Text m))) = Inr text \<longrightarrow>
       fst (Process w a msg) = Inr (capped text))"
proof -
  note r = Process_reply [OF assms(3) assms(1) assms(2), where a = a]
  have 1: "truncate text 1200 = Inr (capped text)" by (rule truncate_capped)
  have 2: "length text \<le> 1200 \<longrightarrow> capped text = text" by (simp add: capped_def)
  have 3: "1200 < length text \<longrightarrow>
       capped text = take 1200 text @ ''...'' \<and> length (capped text) = 1200 + length ''...''"
    by (simp add: capped_def)
  have 4: "HasPrefix lower ''/fetch '' \<and> webFetch a = Some fetch \<and>
     TrimSpace (drop 7 (Text m)) \<noteq> [] \<and> fetch (TrimSpace (drop 7 (Text m))) = Inr text \<longrightarrow>
       fst (Process w a msg) = Inr (capped text)"
    using r assms(4) by (auto simp: fetchCommand_text)
  have 5: "HasPrefix lower ''/browse '' \<and> webFetch a = Some fetch \<and>
     TrimSpace (drop 8 (Text m)) \<noteq> [] \<and> fetch (TrimSpace (drop 8 (Text m))) = Inr text \<and>
     \<not> blank text \<longrightarrow>
       fst (Process w a msg) = Inr (capped text)"
    using r assms(4) by (auto simp: browseCommand_fetched dest: fetch_not_browse)
  have 6: "HasPrefix lower ''/browse '' \<and>
     (webFetch a = None \<or>
      (\<exists>f. webFetch a = Some f \<and> (\<forall>t. f (TrimSpace (drop 8 (Text m))) = Inr t \<longrightarrow> blank t))) \<and>
     TrimSpace (drop 8 (Text m)) \<noteq> [] \<and> browser a = Some browse \<and>
     browse (TrimSpace (drop 8 (Text m))) = Inr text \<longrightarrow>
       fst (Process w a msg) = Inr (capped text)"
  proof (intro impI, elim conjE)
    assume b: "HasPrefix lower ''/browse ''"
      and f: "webFetch a = None \<or>
        (\<exists>f. webFetch a = Some f \<and> (\<forall>t. f (TrimSpace (drop 8 (Text m))) = Inr t \<longrightarrow> blank t))"
      and t: "TrimSpace (drop 8 (Text m)) \<noteq> []" and br: "browser a = Some browse"
      and bt: "browse (TrimSpace (drop 8 (Text m))) = Inr text"
    from b have "\<not> HasPrefix lower ''/fetch ''" by (rule fetch_not_browse)
    with r assms(4) b have "fst (Process w a msg) = browseCommand a m" by simp
    with browseCommand_browsed [OF t f br bt] show "fst (Process w a msg) = Inr (capped text)"
      by simp
  qed
  from 1 2 3 4 5 6 show ?thesis by blast
qed

theorem tool_text_truncated_witness:
  "\<not> blank (Text msg2) \<and>
   fst (Process world0 agent0 msg2) = Inr ''page of example.com''"
proof -
  let ?m = "fst (normalizeMessage world0 msg2)"
  let ?lower = "ToLower (unicodeLower world0) (Text ?m)"
  have "TrimSpace (Text msg2) \<noteq> []" by code_simp
  then have nb: "\<not> blank (Text msg2)" by (simp add: TrimSpace_blank_iff)
  have ns: "\<not> HasPrefix ?lower ''/status''" by code_simp
  have c1: "HasPrefix ?lower ''/fetch ''" by code_simp
  have c2: "webFetch agent0 = Some page0" by (simp add: agent0_def NewAgent_def)
  have c3: "TrimSpace (drop 7 (Text ?m)) \<noteq> []" by code_simp
  have c4: "page0 (TrimSpace (drop 7 (Text ?m))) = Inr ''page of example.com''" by code_simp
  have c5: "capped ''page of example.com'' = ''page of example.com''" by code_simp
  from tool_text_truncated [OF refl refl nb ns, of "''page of example.com''" agent0 page0]
  have "HasPrefix ?lower ''/fetch '' \<and> webFetch agent0 = Some page0 \<and>
     TrimSpace (drop 7 (Text ?m)) \<noteq> [] \<and>
     page0 (TrimSpace (drop 7 (Text ?m))) = Inr ''page of example.com'' \<longrightarrow>
       fst (Process world0 agent0 msg2) = Inr (capped ''page of example.com'')"
    by blast
  with c1 c2 c3 c4 have "fst (Process world0 agent0 msg2) = Inr (capped ''page of example.com'')"
    by blast
  with c5 nb show ?thesis by simp
qed

lemma lowerASCII_space: "lowerASCII c = CHR '' '' \<Longrightarrow> c = CHR '' ''"
proof (cases "(65::nat) \<le> of_char c \<and> of_char c \<le> (90::nat)")
  case False
  assume "lowerASCII c = CHR '' ''"
  with False show ?thesis by (auto simp: lowerASCII_def)
next
  case True
  assume "lowerASCII c = CHR '' ''"
  with True have "char_of (of_char c + (32::nat)) = CHR '' ''" by (simp add: lowerASCII_def)
  then have "(of_char (char_of (of_char c + (32::nat)) :: char) :: nat) = of_char CHR '' ''" by simp
  then have "(of_char c + (32::nat)) mod 256 = 32" by (simp only: of_char_of) simp
  with True show ?thesis by simp
qed

lemma space_rune: "'' '' \<in> set spaceRunes"
  by (simp add: spaceRunes_def asciiSpace_def)

lemma TrimSpace_no_space_suffix:
  assumes "w \<in> set spaceRunes"
  shows "\<not> suffix w (TrimSpace x)"
proof -
  have "spaceLenR (TrimSpace x) = 0" by (simp add: TrimSpace_def spaceLenR_trimRight)
  with assms show ?thesis by (simp add: spaceLenR_0_iff)
qed

lemma blank_suffix:
  assumes "blank r" and "r \<noteq> []"
  shows "\<exists>w \<in> set spaceRunes. suffix w r"
proof -
  from assms(1) obtain ws where ws: "set ws \<subseteq> set spaceRunes" "r = concat ws"
    by (auto simp: blank_def)
  with assms(2) have "ws \<noteq> []" by auto
  then have "ws = butlast ws @ [last ws]" by simp
  then have "concat ws = concat (butlast ws) @ last ws"
    by (metis concat_append concat.simps append_Nil2)
  with ws(2) have "suffix (last ws) r" by (simp add: suffix_def)
  moreover from \<open>ws \<noteq> []\<close> ws(1) have "last ws \<in> set spaceRunes" by auto
  ultimately show ?thesis by blast
qed

text \<open>
  Once the text is trimmed, a text of ASCII bytes that starts with the command and a space
  has an address after it that is not blank: the branch of \<open>fetchCommand\<close> that answers
  with the hint is not taken.
\<close>

lemma fetch_target_nonempty:
  assumes ascii: "list_all (\<lambda>c. of_char c < (128::nat)) (TrimSpace x)"
    and pre: "HasPrefix (ToLower U (TrimSpace x)) ''/fetch ''"
  shows "TrimSpace (drop 7 (TrimSpace x)) \<noteq> []"
proof
  let ?t = "TrimSpace x"
  assume "TrimSpace (drop 7 ?t) = []"
  then have b: "blank (drop 7 ?t)" by (simp add: TrimSpace_blank_iff)
  from ascii pre have p: "prefix ''/fetch '' (map lowerASCII ?t)"
    by (simp add: ToLower_def HasPrefix_def)
  then obtain r where r: "map lowerASCII ?t = ''/fetch '' @ r" by (auto simp: prefix_def)
  then have "length (map lowerASCII ?t) = 7 + length r" by simp
  then have len: "7 \<le> length ?t" by simp
  from r have "map lowerASCII ?t ! 6 = CHR '' ''" by simp
  with len have s6: "?t ! 6 = CHR '' ''" by (simp add: lowerASCII_space)
  show False
  proof (cases "drop 7 ?t = []")
    case True
    with len have l7: "length ?t = 7" by simp
    then have ne: "?t \<noteq> []" by auto
    then have "?t = butlast ?t @ [last ?t]" by simp
    moreover from ne l7 have "last ?t = ?t ! 6" by (simp add: last_conv_nth)
    ultimately have "?t = butlast ?t @ [?t ! 6]" by simp
    with s6 have "suffix '' '' ?t" by (metis suffixI)
    with TrimSpace_no_space_suffix [OF space_rune] show False by blast
  next
    case False
    with b obtain w where w: "w \<in> set spaceRunes" "suffix w (drop 7 ?t)"
      using blank_suffix by blast
    from w(2) have "suffix w ?t" by (meson suffix_drop suffix_order.trans)
    with TrimSpace_no_space_suffix [OF w(1)] show False by blast
  qed
qed

section \<open>Properties of the tools\<close>

lemma normalizeURL_same: "normalizeURL parse str rawURL = normalizeWebURL parse str rawURL"
  by (simp add: normalizeURL_def normalizeWebURL_def)

lemma normalizeWebURL_iff:
  "normalizeWebURL parse str rawURL = Inr r \<longleftrightarrow>
     \<not> blank rawURL \<and>
     (\<exists>u. parse (withScheme rawURL) = Inr u \<and> (Scheme u = ''http'' \<or> Scheme u = ''https'') \<and>
          Host u \<noteq> [] \<and> r = str u)"
  by (auto simp: normalizeWebURL_def withScheme_def Let_def TrimSpace_blank_iff split: sum.splits)

lemma normalizeWebURL_blank:
  "blank rawURL \<Longrightarrow> normalizeWebURL parse str rawURL = Inl (ErrorString ''url is required'')"
  by (simp add: normalizeWebURL_def TrimSpace_blank_iff)

lemma normalizeWebURL_rejects:
  "(\<exists>e. normalizeWebURL parse str rawURL = Inl e) \<longleftrightarrow>
     blank rawURL \<or>
     (\<forall>u. parse (withScheme rawURL) = Inr u \<longrightarrow>
          (Scheme u \<noteq> ''http'' \<and> Scheme u \<noteq> ''https'') \<or> Host u = [])"
  by (auto simp: normalizeWebURL_def withScheme_def Let_def TrimSpace_blank_iff split: sum.splits)

lemma withScheme_examples:
  "withScheme ''example.com'' = ''https://example.com''"
  "withScheme ''ftp://x.com'' = ''ftp://x.com''"
  "withScheme ''https://'' = ''https://''"
  "withScheme ''  example.com '' = ''https://example.com''"
  by code_simp+

lemma Fetch_invalid:
  "normalizeWebURL parse str rawURL = Inl e \<Longrightarrow> Fetch parse str exchange rawURL = (Inl e, [])"
  by (simp add: Fetch_def)

lemma Browse_invalid:
  "normalizeURL parse str rawURL = Inl e \<Longrightarrow> Browse parse str navigate w b rawURL = (Inl e, b, w)"
  by (simp add: Browse_def)

lemma example_not_blank:
  "\<not> blank ''example.com''" "\<not> blank ''ftp://x.com''" "\<not> blank ''https://''" "blank []"
proof -
  have "TrimSpace ''example.com'' \<noteq> [] \<and> TrimSpace ''ftp://x.com'' \<noteq> [] \<and>
        TrimSpace ''https://'' \<noteq> [] \<and> TrimSpace [] = []"
    by code_simp
  then show "\<not> blank ''example.com''" "\<not> blank ''ftp://x.com''" "\<not> blank ''https://''" "blank []"
    by (simp_all add: TrimSpace_blank_iff)
qed

text \<open>
  Claim C6: \<open>normalizeWebURL\<close> (and \<open>normalizeURL\<close> of the browser, which is the same
  function) accepts an input exactly when it is not blank and the trimmed input, with
  \<open>https://\<close> in front when it holds no \<open>://\<close>, parses to an address whose scheme is
  \<open>http\<close> or \<open>https\<close> and whose host is not empty; the result is then the parsed address
  printed. When it rejects, \<open>Fetch\<close> returns the error with no request made and \<open>Browse\<close>
  returns it with the browser and the world as they were. The empty input is rejected;
  \<open>example.com\<close> is handed to the parser as \<open>https://example.com\<close>; and with \<open>net/url\<close>
  behaving on the three addresses as \<open>net_url_examples\<close> says, \<open>example.com\<close> is accepted
  as \<open>https://example.com\<close> while \<open>ftp://x.com\<close> and \<open>https://\<close> are rejected.
\<close>

theorem url_validation:
  "(normalizeWebURL parse str rawURL = Inr r \<longleftrightarrow>
      \<not> blank rawURL \<and>
      (\<exists>u. parse (withScheme rawURL) = Inr u \<and> (Scheme u = ''http'' \<or> Scheme u = ''https'') \<and>
           Host u \<noteq> [] \<and> r = str u)) \<and>
   normalizeURL parse str rawURL = normalizeWebURL parse str rawURL \<and>
   (\<forall>e. normalizeWebURL parse str rawURL = Inl e \<longrightarrow>
        Fetch parse str exchange rawURL = (Inl e, []) \<and>
        Browse parse str navigate w b rawURL = (Inl e, b, w)) \<and>
   normalizeWebURL parse str [] = Inl (ErrorString ''url is required'') \<and>
   withScheme ''example.com'' = ''https://example.com'' \<and>
   (net_url_examples parse str \<longrightarrow>
      normalizeWebURL parse str ''example.com'' = Inr ''https://example.com'' \<and>
      (\<exists>e. normalizeWebURL parse str ''ftp://x.com'' = Inl e) \<and>
      (\<exists>e. normalizeWebURL parse str ''https://'' = Inl e))"
proof -
  have 1: "normalizeWebURL parse str rawURL = Inr r \<longleftrightarrow>
      \<not> blank rawURL \<and>
      (\<exists>u. parse (withScheme rawURL) = Inr u \<and> (Scheme u = ''http'' \<or> Scheme u = ''https'') \<and>
           Host u \<noteq> [] \<and> r = str u)"
    by (rule normalizeWebURL_iff)
  have 2: "normalizeURL parse str rawURL = normalizeWebURL parse str rawURL"
    by (rule normalizeURL_same)
  have 3: "\<forall>e. normalizeWebURL parse str rawURL = Inl e \<longrightarrow>
        Fetch parse str exchange rawURL = (Inl e, []) \<and>
        Browse parse str navigate w b rawURL = (Inl e, b, w)"
    by (simp add: Fetch_invalid Browse_invalid normalizeURL_same)
  have 4: "normalizeWebURL parse str [] = Inl (ErrorString ''url is required'')"
    by (simp add: normalizeWebURL_blank example_not_blank)
  have 5: "withScheme ''example.com'' = ''https://example.com''"
    by (rule withScheme_examples)
  have 6: "normalizeWebURL parse str ''example.com'' = Inr ''https://example.com'' \<and>
      (\<exists>e. normalizeWebURL parse str ''ftp://x.com'' = Inl e) \<and>
      (\<exists>e. normalizeWebURL parse str ''https://'' = Inl e)" if ex: "net_url_examples parse str"
  proof -
    from ex obtain u where u: "parse ''https://example.com'' = Inr u" "Scheme u = ''https''"
      "Host u = ''example.com''" "str u = ''https://example.com''"
      by (auto simp: net_url_examples_def)
    then have a: "normalizeWebURL parse str ''example.com'' = Inr ''https://example.com''"
      by (simp add: normalizeWebURL_iff withScheme_examples example_not_blank)
    from ex have "\<forall>u. parse ''ftp://x.com'' = Inr u \<longrightarrow> Scheme u = ''ftp''"
      by (simp add: net_url_examples_def)
    then have b: "\<exists>e. normalizeWebURL parse str ''ftp://x.com'' = Inl e"
      by (auto simp: normalizeWebURL_rejects withScheme_examples)
    from ex have "\<forall>u. parse ''https://'' = Inr u \<longrightarrow> Host u = []"
      by (simp add: net_url_examples_def)
    then have c: "\<exists>e. normalizeWebURL parse str ''https://'' = Inl e"
      by (auto simp: normalizeWebURL_rejects withScheme_examples)
    from a b c show ?thesis by blast
  qed
  from 1 2 3 4 5 6 show ?thesis by blast
qed

theorem url_validation_witness:
  "net_url_examples parse0 str0 \<and>
   normalizeWebURL parse0 str0 ''example.com'' = Inr ''https://example.com'' \<and>
   (\<exists>e. normalizeWebURL parse0 str0 ''ftp://x.com'' = Inl e) \<and>
   (\<exists>e. normalizeWebURL parse0 str0 ''https://'' = Inl e) \<and>
   normalizeWebURL parse0 str0 [] = Inl (ErrorString ''url is required'')"
proof -
  have ex: "net_url_examples parse0 str0"
    by (simp add: net_url_examples_def parse0_def str0_def)
  from url_validation [of parse0 str0 "[]"] have e: "normalizeWebURL parse0 str0 [] = Inl (ErrorString ''url is required'')"
    by blast
  from url_validation [of parse0 str0] ex have
    "normalizeWebURL parse0 str0 ''example.com'' = Inr ''https://example.com'' \<and>
      (\<exists>e. normalizeWebURL parse0 str0 ''ftp://x.com'' = Inl e) \<and>
      (\<exists>e. normalizeWebURL parse0 str0 ''https://'' = Inl e)"
    by blast
  with ex e show ?thesis by blast
qed

section \<open>Properties of the browser\<close>

lemma acquireBrowser_live:
  assumes "browserCtx b = Some ctx"
  shows "fst (acquireBrowser w b) = Inr ctx \<and>
         browserCtx (fst (snd (acquireBrowser w b))) = Some ctx \<and>
         starts (snd (snd (acquireBrowser w b))) = starts w \<and>
         procs (snd (snd (acquireBrowser w b))) = procs w \<and>
         start_outcome (snd (snd (acquireBrowser w b))) = start_outcome w"
  using assms by (simp add: acquireBrowser_def time_Now_def split_def Let_def)

lemma acquireBrowser_started:
  assumes "browserCtx b = None" and "start_outcome w (starts w) = Inr ctx"
  shows "fst (acquireBrowser w b) = Inr ctx \<and>
         browserCtx (fst (snd (acquireBrowser w b))) = Some ctx \<and>
         starts (snd (snd (acquireBrowser w b))) = Suc (starts w) \<and>
         procs (snd (snd (acquireBrowser w b))) = ctx # procs w \<and>
         start_outcome (snd (snd (acquireBrowser w b))) = start_outcome w"
  using assms by (simp add: acquireBrowser_def time_Now_def split_def Let_def)

lemma acquireBrowser_failed:
  assumes "browserCtx b = None" and "start_outcome w (starts w) = Inl e"
  shows "acquireBrowser w b = (Inl (WrapError ''start browser'' e), b, w\<lparr>starts := Suc (starts w)\<rparr>)"
  using assms by (simp add: acquireBrowser_def Let_def)

lemma acquireBrowser_one_live:
  assumes "one_live w b"
  shows "one_live (snd (snd (acquireBrowser w b))) (fst (snd (acquireBrowser w b)))"
  using assms
  by (auto simp: one_live_def acquireBrowser_def time_Now_def split_def Let_def
      split: option.splits sum.splits)

lemma touch_one_live: "one_live w b \<Longrightarrow> one_live (snd (touch w b)) (fst (touch w b))"
  by (auto simp: one_live_def touch_def time_Now_def split_def split: option.splits)

lemma killLocked_one_live: "one_live w b \<Longrightarrow> one_live (snd (killLocked w b)) (fst (killLocked w b))"
  by (auto simp: one_live_def killLocked_def split: option.splits)

lemma killLocked_absent:
  "one_live w b \<Longrightarrow> browserCtx (fst (killLocked w b)) = None \<and> procs (snd (killLocked w b)) = []"
  by (auto simp: one_live_def killLocked_def split: option.splits)

lemma one_live_clock: "one_live (w\<lparr>ticks := t\<rparr>) b = one_live w b"
  by (simp add: one_live_def split: option.splits)

lemma KillIfIdle_one_live:
  "one_live w b \<Longrightarrow> one_live (snd (snd (KillIfIdle w b))) (fst (snd (KillIfIdle w b)))"
  by (simp add: KillIfIdle_def time_Now_def split_def Let_def killLocked_one_live one_live_clock)

lemma Close_one_live: "one_live w b \<Longrightarrow> one_live (snd (Close w b)) (fst (Close w b))"
  by (simp add: Close_def killLocked_one_live)

lemma NewBrowser_one_live: "procs w = [] \<Longrightarrow> one_live w (NewBrowser t)"
  by (simp add: one_live_def NewBrowser_def)

lemma one_live_length: "one_live w b \<Longrightarrow> length (procs w) \<le> 1"
  by (auto simp: one_live_def split: option.splits)

lemma acquireMany_Suc:
  "acquireMany (Suc n) w b =
     (fst (acquireBrowser w b) #
        fst (acquireMany n (snd (snd (acquireBrowser w b))) (fst (snd (acquireBrowser w b)))),
      snd (acquireMany n (snd (snd (acquireBrowser w b))) (fst (snd (acquireBrowser w b)))))"
  by (simp add: split_def Let_def)

lemma acquireMany_one_live:
  "one_live w b \<Longrightarrow> one_live (snd (snd (acquireMany n w b))) (fst (snd (acquireMany n w b)))"
proof (induction n arbitrary: w b)
  case 0
  then show ?case by simp
next
  case (Suc n)
  from Suc.prems have "one_live (snd (snd (acquireBrowser w b))) (fst (snd (acquireBrowser w b)))"
    by (rule acquireBrowser_one_live)
  then show ?case
    using Suc.IH by (simp add: acquireMany_Suc del: acquireMany.simps)
qed

lemma acquireMany_live:
  "browserCtx b = Some ctx \<Longrightarrow>
   fst (acquireMany n w b) = replicate n (Inr ctx) \<and>
   browserCtx (fst (snd (acquireMany n w b))) = Some ctx \<and>
   starts (snd (snd (acquireMany n w b))) = starts w \<and>
   procs (snd (snd (acquireMany n w b))) = procs w"
proof (induction n arbitrary: w b)
  case 0
  then show ?case by simp
next
  case (Suc n)
  let ?b1 = "fst (snd (acquireBrowser w b))"
  let ?w1 = "snd (snd (acquireBrowser w b))"
  note l = acquireBrowser_live [OF Suc.prems, of w]
  from l have "browserCtx ?b1 = Some ctx" by blast
  from Suc.IH [OF this, of ?w1] l show ?case
    by (simp add: acquireMany_Suc del: acquireMany.simps)
qed

lemma acquireMany_started:
  assumes "browserCtx b = None" and "start_outcome w (starts w) = Inr ctx"
  shows "fst (acquireMany (Suc n) w b) = replicate (Suc n) (Inr ctx) \<and>
         browserCtx (fst (snd (acquireMany (Suc n) w b))) = Some ctx \<and>
         starts (snd (snd (acquireMany (Suc n) w b))) = Suc (starts w) \<and>
         procs (snd (snd (acquireMany (Suc n) w b))) = ctx # procs w"
proof -
  let ?b1 = "fst (snd (acquireBrowser w b))"
  let ?w1 = "snd (snd (acquireBrowser w b))"
  note s = acquireBrowser_started [OF assms]
  from s have "browserCtx ?b1 = Some ctx" by blast
  from acquireMany_live [OF this, of n ?w1] s show ?thesis
    by (simp add: acquireMany_Suc del: acquireMany.simps)
qed

lemma acquireMany_failed:
  assumes "browserCtx b = None" and "start_outcome w (starts w) = Inl e"
  shows "fst (acquireMany (Suc n) w b) =
           Inl (WrapError ''start browser'' e) # fst (acquireMany n (w\<lparr>starts := Suc (starts w)\<rparr>) b)"
  using acquireBrowser_failed [OF assms]
  by (simp add: acquireMany_Suc del: acquireMany.simps)

text \<open>
  Claim C2, as stated, fails: the lock makes the calls run one after the other, and a
  call that finds no browser starts one, whatever became of the start before it. With a
  first start that fails, three calls make two starts, the first call returns the error
  and the other two the browser.
\<close>

theorem single_flight_counterexample:
  "browserCtx (NewBrowser 0) = None \<and> starts world3 = 0 \<and>
   fst (acquireMany 3 world3 (NewBrowser 0)) =
     [Inl (WrapError ''start browser'' (ErrorString ''exec: chromium not found'')), Inr 7, Inr 7] \<and>
   starts (snd (snd (acquireMany 3 world3 (NewBrowser 0)))) = 2"
  by code_simp

text \<open>
  Claim C2, amended: the calls of \<open>acquireBrowser\<close> run one at a time, in the order in
  which they get the lock. At most one browser runs at any time, and it is the one the
  context names: this holds after any number of calls, and after \<open>touch\<close>, \<open>KillIfIdle\<close>
  and \<open>Close\<close>. When a browser is there, every call returns it and nothing is started.
  When none is there and the start of the first call succeeds, that one start is the
  only one and all later calls return the same browser. When the start of the first call
  fails, that call returns the error of its own start, no browser is left behind, and the
  next call starts again.
\<close>

theorem acquire_serialized:
  assumes "one_live w b"
  shows "one_live (snd (snd (acquireMany n w b))) (fst (snd (acquireMany n w b))) \<and>
    length (procs (snd (snd (acquireMany n w b)))) \<le> 1 \<and>
    one_live (snd (touch w b)) (fst (touch w b)) \<and>
    one_live (snd (snd (KillIfIdle w b))) (fst (snd (KillIfIdle w b))) \<and>
    one_live (snd (Close w b)) (fst (Close w b)) \<and>
    (\<forall>ctx. browserCtx b = Some ctx \<longrightarrow>
       fst (acquireMany n w b) = replicate n (Inr ctx) \<and>
       starts (snd (snd (acquireMany n w b))) = starts w) \<and>
    (\<forall>ctx. browserCtx b = None \<and> start_outcome w (starts w) = Inr ctx \<longrightarrow>
       fst (acquireMany (Suc n) w b) = replicate (Suc n) (Inr ctx) \<and>
       starts (snd (snd (acquireMany (Suc n) w b))) = Suc (starts w) \<and>
       procs (snd (snd (acquireMany (Suc n) w b))) = [ctx]) \<and>
    (\<forall>e. browserCtx b = None \<and> start_outcome w (starts w) = Inl e \<longrightarrow>
       fst (acquireMany (Suc n) w b) =
         Inl (WrapError ''start browser'' e) # fst (acquireMany n (w\<lparr>starts := Suc (starts w)\<rparr>) b))"
proof -
  have 1: "one_live (snd (snd (acquireMany n w b))) (fst (snd (acquireMany n w b)))"
    using assms by (rule acquireMany_one_live)
  then have 2: "length (procs (snd (snd (acquireMany n w b)))) \<le> 1"
    by (rule one_live_length)
  have 3: "one_live (snd (touch w b)) (fst (touch w b))"
    using assms by (rule touch_one_live)
  have 4: "one_live (snd (snd (KillIfIdle w b))) (fst (snd (KillIfIdle w b)))"
    using assms by (rule KillIfIdle_one_live)
  have 5: "one_live (snd (Close w b)) (fst (Close w b))"
    using assms by (rule Close_one_live)
  have 6: "\<forall>ctx. browserCtx b = Some ctx \<longrightarrow>
       fst (acquireMany n w b) = replicate n (Inr ctx) \<and>
       starts (snd (snd (acquireMany n w b))) = starts w"
    using acquireMany_live by blast
  have 7: "\<forall>ctx. browserCtx b = None \<and> start_outcome w (starts w) = Inr ctx \<longrightarrow>
       fst (acquireMany (Suc n) w b) = replicate (Suc n) (Inr ctx) \<and>
       starts (snd (snd (acquireMany (Suc n) w b))) = Suc (starts w) \<and>
       procs (snd (snd (acquireMany (Suc n) w b))) = [ctx]"
  proof (intro allI impI, elim conjE)
    fix ctx
    assume n: "browserCtx b = None" and s: "start_outcome w (starts w) = Inr ctx"
    from assms n have "procs w = []" by (simp add: one_live_def)
    with acquireMany_started [OF n s, of n]
    show "fst (acquireMany (Suc n) w b) = replicate (Suc n) (Inr ctx) \<and>
       starts (snd (snd (acquireMany (Suc n) w b))) = Suc (starts w) \<and>
       procs (snd (snd (acquireMany (Suc n) w b))) = [ctx]"
      by simp
  qed
  have 8: "\<forall>e. browserCtx b = None \<and> start_outcome w (starts w) = Inl e \<longrightarrow>
       fst (acquireMany (Suc n) w b) =
         Inl (WrapError ''start browser'' e) # fst (acquireMany n (w\<lparr>starts := Suc (starts w)\<rparr>) b)"
    using acquireMany_failed by blast
  from 1 2 3 4 5 6 7 8 show ?thesis by blast
qed

theorem acquire_serialized_witness:
  "one_live world0 (NewBrowser 0) \<and>
   fst (acquireMany (Suc 2) world0 (NewBrowser 0)) = replicate (Suc 2) (Inr 0) \<and>
   starts (snd (snd (acquireMany (Suc 2) world0 (NewBrowser 0)))) = 1 \<and>
   procs (snd (snd (acquireMany (Suc 2) world0 (NewBrowser 0)))) = [0]"
proof -
  have l: "one_live world0 (NewBrowser 0)"
    by (simp add: NewBrowser_one_live world0_def)
  have a: "browserCtx (NewBrowser 0) = None" by (simp add: NewBrowser_def)
  have s: "start_outcome world0 (starts world0) = Inr 0" by (simp add: world0_def)
  have z: "starts world0 = 0" by (simp add: world0_def)
  from acquire_serialized [OF l, of 2] a s have
    "fst (acquireMany (Suc 2) world0 (NewBrowser 0)) = replicate (Suc 2) (Inr 0) \<and>
     starts (snd (snd (acquireMany (Suc 2) world0 (NewBrowser 0)))) = Suc (starts world0) \<and>
     procs (snd (snd (acquireMany (Suc 2) world0 (NewBrowser 0)))) = [0]"
    by blast
  with l z show ?thesis by simp
qed

end
